theory Spec2Isabelle
  imports Main "HOL-Library.AList" "HOL-Library.Sublist"
begin

section \<open>Python strings\<close>

text \<open>
  A Python \<open>str\<close> is a sequence of code points. The model is \<open>string\<close>, each \<open>char\<close>
  read as the code point of the same number (0 to 255, the Latin-1 range), so \<open>length\<close>
  counts what Python's \<open>len\<close> counts. The character classes below are the ones Python 3
  uses on \<open>str\<close> for that range: \<open>str.isspace\<close> (also \<open>\s\<close> and \<open>str.strip\<close>),
  \<open>str.isalnum\<close> and \<open>\w\<close>.
\<close>

abbreviation DQ :: char where "DQ \<equiv> CHR 0x22"
abbreviation APOS :: char where "APOS \<equiv> CHR 0x27"
abbreviation BSL :: char where "BSL \<equiv> CHR 0x5C"

definition isspace :: "char \<Rightarrow> bool" where
  "isspace c = (let n = (of_char c :: nat) in
     (9 \<le> n \<and> n \<le> 13) \<or> (28 \<le> n \<and> n \<le> 32) \<or> n = 133 \<or> n = 160)"

definition isalnum :: "char \<Rightarrow> bool" where
  "isalnum c = (let n = (of_char c :: nat) in
     (48 \<le> n \<and> n \<le> 57) \<or> (65 \<le> n \<and> n \<le> 90) \<or> (97 \<le> n \<and> n \<le> 122) \<or>
     n = 170 \<or> n = 178 \<or> n = 179 \<or> n = 181 \<or> n = 185 \<or> n = 186 \<or>
     (188 \<le> n \<and> n \<le> 190) \<or> (192 \<le> n \<and> n \<le> 214) \<or> (216 \<le> n \<and> n \<le> 246) \<or>
     (248 \<le> n \<and> n \<le> 255))"

definition isword :: "char \<Rightarrow> bool" where
  \<comment> \<open>the class \<open>\w\<close> of a \<open>str\<close> pattern\<close>
  "isword c = (isalnum c \<or> c = CHR ''_'')"

definition isdigit :: "char \<Rightarrow> bool" where
  \<comment> \<open>\<open>DIGITS\<close> of the template parser: the ASCII digits\<close>
  "isdigit c = (let n = (of_char c :: nat) in 48 \<le> n \<and> n \<le> 57)"

definition isoctdigit :: "char \<Rightarrow> bool" where
  "isoctdigit c = (let n = (of_char c :: nat) in 48 \<le> n \<and> n \<le> 55)"

definition isasciiletter :: "char \<Rightarrow> bool" where
  "isasciiletter c = (let n = (of_char c :: nat) in (65 \<le> n \<and> n \<le> 90) \<or> (97 \<le> n \<and> n \<le> 122))"

definition digit_value :: "char \<Rightarrow> nat" where
  "digit_value c = of_char c - 48"

definition strip :: "string \<Rightarrow> string" where
  \<comment> \<open>\<open>str.strip()\<close>\<close>
  "strip s = rev (dropWhile isspace (rev (dropWhile isspace s)))"

definition replace :: "char \<Rightarrow> string \<Rightarrow> string \<Rightarrow> string" where
  \<comment> \<open>\<open>s.replace(old, new)\<close> for a one-character \<open>old\<close>\<close>
  "replace old new s = concat (map (\<lambda>c. if c = old then new else [c]) s)"

datatype exn = TemplateError | AttributeError | KeyError | OSError

section \<open>The fragment of Python's \<open>re\<close> that the program uses\<close>

text \<open>
  The three patterns of the program are sequences of literals, one-character classes and
  greedy repetitions of a class, some of them inside capturing groups. \<open>match_atoms\<close> is
  the backtracking matcher: a repetition takes the longest run first and gives characters
  back one at a time. The flag \<open>need\<close> is the engine's \<open>must_advance\<close>: an empty match is
  refused right after an empty match.
\<close>

type_synonym charset = "char \<Rightarrow> bool"

datatype atom = Lit string | Cls charset | Star charset | Plus charset

datatype item = Single atom | Group "atom list"

type_synonym regex = "item list"

fun match_atoms :: "bool \<Rightarrow> atom list \<Rightarrow> string \<Rightarrow> (string list \<times> string) option"
  and try_lens :: "bool \<Rightarrow> atom list \<Rightarrow> string \<Rightarrow> nat \<Rightarrow> nat \<Rightarrow> (string list \<times> string) option"
where
  "match_atoms need [] s = (if need then None else Some ([], s))"
| "match_atoms need (Lit l # as) s =
     (if prefix l s
      then map_option (\<lambda>(ms, r). (l # ms, r)) (match_atoms (need \<and> l = []) as (drop (length l) s))
      else None)"
| "match_atoms need (Cls p # as) s =
     (case s of
        [] \<Rightarrow> None
      | c # r \<Rightarrow> if p c then map_option (\<lambda>(ms, r'). ([c] # ms, r')) (match_atoms False as r) else None)"
| "match_atoms need (Star p # as) s = try_lens need as s (length (takeWhile p s)) 0"
| "match_atoms need (Plus p # as) s =
     (if takeWhile p s = [] then None else try_lens need as s (length (takeWhile p s)) 1)"
| "try_lens need as s n lo =
     (case match_atoms (need \<and> n = 0) as (drop n s) of
        Some (ms, r) \<Rightarrow> Some (take n s # ms, r)
      | None \<Rightarrow> if n \<le> lo then None else try_lens need as s (n - 1) lo)"

fun atoms_of :: "item \<Rightarrow> atom list" where
  "atoms_of (Single a) = [a]"
| "atoms_of (Group as) = as"

fun groups_of :: "regex \<Rightarrow> string list \<Rightarrow> string list" where
  "groups_of [] spans = []"
| "groups_of (Single a # r) spans = groups_of r (drop 1 spans)"
| "groups_of (Group as # r) spans =
     concat (take (length as) spans) # groups_of r (drop (length as) spans)"

fun ngroups :: "regex \<Rightarrow> nat" where
  "ngroups [] = 0"
| "ngroups (Single a # r) = ngroups r"
| "ngroups (Group as # r) = Suc (ngroups r)"

definition match_at :: "bool \<Rightarrow> regex \<Rightarrow> string \<Rightarrow> (string list \<times> string \<times> string) option" where
  \<comment> \<open>a match starting at the head of \<open>s\<close>: groups 0, 1, ..., the matched text, the rest\<close>
  "match_at must_advance r s =
     (case match_atoms must_advance (concat (map atoms_of r)) s of
        None \<Rightarrow> None
      | Some (spans, rest) \<Rightarrow> Some (concat spans # groups_of r spans, concat spans, rest))"


subsection \<open>Replacement templates\<close>

text \<open>
  \<open>re.sub\<close> reads a replacement string that holds a backslash as a template: the
  tokenizer pairs every backslash with the character after it, and the parser turns the
  tokens into literal characters and group references, or raises. Every exception of the
  parser (\<open>re.error\<close>, and \<open>IndexError\<close> for an unknown group name) is \<open>TemplateError\<close>.
  None of the program's patterns names a group, so \<open>\g<name>\<close> is accepted for a decimal
  group number only. The program never reaches that form: it escapes \<open><\<close> in the name
  before it builds the template.
\<close>

datatype token = Ch char | Esc char

fun tokenize :: "string \<Rightarrow> exn + token list" where
  "tokenize [] = Inr []"
| "tokenize [c] = (if c = BSL then Inl TemplateError else Inr [Ch c])"
| "tokenize (c # d # s) =
     (if c = BSL
      then (case tokenize s of Inl e \<Rightarrow> Inl e | Inr ts \<Rightarrow> Inr (Esc d # ts))
      else (case tokenize (d # s) of Inl e \<Rightarrow> Inl e | Inr ts \<Rightarrow> Inr (Ch c # ts)))"

datatype part = Literal char | GroupRef nat

definition next_in :: "charset \<Rightarrow> token list \<Rightarrow> bool" where
  \<comment> \<open>\<open>s.next in charset\<close>: the next token is a plain character of the set\<close>
  "next_in P ts = (case ts of Ch d # _ \<Rightarrow> P d | _ \<Rightarrow> False)"

fun token_char :: "token \<Rightarrow> char" where
  "token_char (Ch c) = c"
| "token_char (Esc c) = c"

definition int_of_digits :: "nat \<Rightarrow> string \<Rightarrow> nat" where
  \<comment> \<open>\<open>int(digits, base)\<close>\<close>
  "int_of_digits base ds = foldl (\<lambda>v d. base * v + digit_value d) 0 ds"

definition then_parts :: "part list \<Rightarrow> exn + part list \<Rightarrow> exn + part list" where
  "then_parts ps r = (case r of Inl e \<Rightarrow> Inl e | Inr qs \<Rightarrow> Inr (ps @ qs))"

definition addgroup :: "nat \<Rightarrow> nat \<Rightarrow> exn + part list \<Rightarrow> exn + part list" where
  "addgroup groups index r =
     (if groups < index then Inl TemplateError else then_parts [GroupRef index] r)"

definition is_gt :: "token \<Rightarrow> bool" where
  "is_gt t = (t = Ch (CHR ''>''))"

definition decimal_name :: "token list \<Rightarrow> bool" where
  "decimal_name name = (name \<noteq> [] \<and> list_all (\<lambda>t. case t of Ch d \<Rightarrow> isdigit d | Esc _ \<Rightarrow> False) name)"

function parse_tokens :: "nat \<Rightarrow> token list \<Rightarrow> exn + part list" where
  "parse_tokens groups [] = Inr []"
| "parse_tokens groups (Ch c # ts) = then_parts [Literal c] (parse_tokens groups ts)"
| "parse_tokens groups (Esc c # ts) =
     (if c = CHR ''g'' then
        (if \<not> next_in (\<lambda>x. x = CHR ''<'') ts then Inl TemplateError
         else if \<not> list_ex is_gt (tl ts) then Inl TemplateError
         else if \<not> decimal_name (takeWhile (\<lambda>t. \<not> is_gt t) (tl ts)) then Inl TemplateError
         else addgroup groups
                (int_of_digits 10 (map token_char (takeWhile (\<lambda>t. \<not> is_gt t) (tl ts))))
                (parse_tokens groups (tl (dropWhile (\<lambda>t. \<not> is_gt t) (tl ts)))))
      else if c = CHR ''0'' then
        (if next_in isoctdigit ts then
           (if next_in isoctdigit (tl ts)
            then then_parts [Literal (char_of (int_of_digits 8 [token_char (hd ts), token_char (hd (tl ts))]))]
                   (parse_tokens groups (tl (tl ts)))
            else then_parts [Literal (char_of (int_of_digits 8 [token_char (hd ts)]))]
                   (parse_tokens groups (tl ts)))
         else then_parts [Literal (char_of (0::nat))] (parse_tokens groups ts))
      else if isdigit c then
        (if next_in isdigit ts then
           (if isoctdigit c \<and> next_in isoctdigit ts \<and> next_in isoctdigit (tl ts)
            then (if 255 < int_of_digits 8 [c, token_char (hd ts), token_char (hd (tl ts))]
                  then Inl TemplateError
                  else then_parts
                         [Literal (char_of (int_of_digits 8 [c, token_char (hd ts), token_char (hd (tl ts))]))]
                         (parse_tokens groups (tl (tl ts))))
            else addgroup groups (int_of_digits 10 [c, token_char (hd ts)]) (parse_tokens groups (tl ts)))
         else addgroup groups (int_of_digits 10 [c]) (parse_tokens groups ts))
      else if c = CHR ''a'' then then_parts [Literal (CHR 0x07)] (parse_tokens groups ts)
      else if c = CHR ''b'' then then_parts [Literal (CHR 0x08)] (parse_tokens groups ts)
      else if c = CHR ''f'' then then_parts [Literal (CHR 0x0C)] (parse_tokens groups ts)
      else if c = CHR ''n'' then then_parts [Literal (CHR 0x0A)] (parse_tokens groups ts)
      else if c = CHR ''r'' then then_parts [Literal (CHR 0x0D)] (parse_tokens groups ts)
      else if c = CHR ''t'' then then_parts [Literal (CHR 0x09)] (parse_tokens groups ts)
      else if c = CHR ''v'' then then_parts [Literal (CHR 0x0B)] (parse_tokens groups ts)
      else if c = BSL then then_parts [Literal BSL] (parse_tokens groups ts)
      else if isasciiletter c then Inl TemplateError
      else then_parts [Literal BSL, Literal c] (parse_tokens groups ts))"
  by pat_completeness auto
termination
proof (relation "measure (\<lambda>(groups, ts). length ts)")
  fix groups :: nat and c :: char and ts :: "token list"
  show "((groups, tl (dropWhile (\<lambda>t. \<not> is_gt t) (tl ts))), groups, Esc c # ts)
          \<in> measure (\<lambda>(groups, ts). length ts)"
    using length_dropWhile_le [of "\<lambda>t. \<not> is_gt t" "tl ts"] by simp
qed auto

definition parse_template :: "nat \<Rightarrow> string \<Rightarrow> exn + part list" where
  "parse_template groups source =
     (case tokenize source of Inl e \<Rightarrow> Inl e | Inr ts \<Rightarrow> parse_tokens groups ts)"

fun expand_template :: "part list \<Rightarrow> string list \<Rightarrow> string" where
  "expand_template [] gs = []"
| "expand_template (Literal c # ps) gs = c # expand_template ps gs"
| "expand_template (GroupRef i # ps) gs =
     (if i < length gs then gs ! i else []) @ expand_template ps gs"


subsection \<open>\<open>re.sub\<close>\<close>

lemma match_atoms_splits:
  "match_atoms need as s = Some (ms, r) \<Longrightarrow> s = concat ms @ r \<and> (need \<longrightarrow> concat ms \<noteq> [])"
  "try_lens need as s n lo = Some (ms, r) \<Longrightarrow> n \<le> length s
     \<Longrightarrow> s = concat ms @ r \<and> (need \<longrightarrow> concat ms \<noteq> [])"
proof (induction need as s and need as s n lo arbitrary: ms r and ms r rule: match_atoms_try_lens.induct)
  case (1 need s)
  then show ?case by (simp split: if_splits)
next
  case (2 need l as s)
  then show ?case by (fastforce split: if_splits elim: prefixE)
next
  case (3 need p as s)
  then show ?case by (fastforce split: if_splits list.splits)
next
  case (4 need p as s)
  then show ?case by (simp add: length_takeWhile_le)
next
  case (5 need p as s)
  then show ?case by (simp add: length_takeWhile_le split: if_splits)
next
  case (6 need as s n lo)
  show ?case
  proof (cases "match_atoms (need \<and> n = 0) as (drop n s)")
    case None
    with 6 show ?thesis by (simp split: if_splits)
  next
    case (Some a)
    obtain ms' r' where a: "a = (ms', r')" by (cases a)
    from "6.IH"(1) [of ms' r'] Some a
    have d: "drop n s = concat ms' @ r'" and e: "need \<and> n = 0 \<longrightarrow> concat ms' \<noteq> []"
      by simp_all
    from "6.prems" Some a have ms: "ms = take n s # ms'" and r: "r = r'" by simp_all
    have "s = take n s @ drop n s" by simp
    with d have s: "s = concat ms @ r" by (simp add: ms r)
    have "need \<longrightarrow> concat ms \<noteq> []"
    proof
      assume need
      show "concat ms \<noteq> []"
      proof (cases "n = 0")
        case True
        with e \<open>need\<close> show ?thesis by (simp add: ms)
      next
        case False
        with "6.prems"(2) have "take n s \<noteq> []" by auto
        then show ?thesis by (simp add: ms)
      qed
    qed
    with s show ?thesis by simp
  qed
qed

lemma match_at_splits:
  assumes "match_at adv r s = Some (gs, m, rest)"
  shows "s = m @ rest" and "adv \<Longrightarrow> m \<noteq> []"
  using assms match_atoms_splits(1) [of adv "concat (map atoms_of r)" s]
  by (auto simp: match_at_def split: option.splits)

function sub_loop :: "regex \<Rightarrow> part list \<Rightarrow> bool \<Rightarrow> string \<Rightarrow> string" where
  "sub_loop r t must_advance s =
     (case match_at must_advance r s of
        Some (gs, m, rest) \<Rightarrow> expand_template t gs @ sub_loop r t (m = []) rest
      | None \<Rightarrow> (case s of [] \<Rightarrow> [] | c # s' \<Rightarrow> c # sub_loop r t False s'))"
  by pat_completeness auto
termination
  apply (relation "measures [\<lambda>(r, t, adv, s). length s, \<lambda>(r, t, adv, s). if adv then 0 else 1]")
    apply simp
   apply (auto dest: match_at_splits)
  done

definition re_sub :: "regex \<Rightarrow> string \<Rightarrow> string \<Rightarrow> exn + string" where
  \<comment> \<open>\<open>re.sub(pattern, repl, string)\<close>: the template is compiled before the search starts\<close>
  "re_sub pattern repl string =
     (case parse_template (ngroups pattern) repl of
        Inl e \<Rightarrow> Inl e
      | Inr t \<Rightarrow> Inr (sub_loop pattern t False string))"

section \<open>The pure functions of \<open>Role_Rename.py\<close>\<close>

definition format_file_name :: "string \<Rightarrow> exn + string" where
  \<comment> \<open>\<open>re.sub(r'[^\w\-]', '_', role_name)\<close>, then the f-string\<close>
  "format_file_name role_name =
     (case re_sub [Single (Cls (\<lambda>c. \<not> (isword c \<or> c = CHR ''-'')))] ''_'' role_name of
        Inl e \<Rightarrow> Inl e
      | Inr formatted_name \<Rightarrow> Inr (''NAB_Bundle_'' @ formatted_name @ ''.xml''))"

definition replacements :: "(char \<times> string) list" where
  \<comment> \<open>the dict, in insertion order, which is the order \<open>items()\<close> iterates in\<close>
  "replacements =
     [(CHR ''&'', ''&amp;''), (CHR ''<'', ''&lt;''), (CHR ''>'', ''&gt;''),
      (DQ, ''&quot;''), (APOS, ''&apos;'')]"

definition escape_special_characters :: "string \<Rightarrow> string" where
  "escape_special_characters role_name =
     foldl (\<lambda>role_name (key, value). replace key value role_name) role_name replacements"

definition identity_pattern :: regex where
  \<comment> \<open>\<open>(displayName=")[^"]*(")\s+(name=")[^"]*(")\<close>\<close>
  \<open>identity_pattern =
     [Group [Lit ''displayName="''], Single (Star (\<lambda>c. c \<noteq> DQ)), Group [Lit ''"''],
      Single (Plus isspace),
      Group [Lit ''name="''], Single (Star (\<lambda>c. c \<noteq> DQ)), Group [Lit ''"'']]\<close>

definition rewrite_identity :: "string \<Rightarrow> string \<Rightarrow> exn + string" where
  \<comment> \<open>line 89 of \<open>process_role\<close>: the replacement string is built by concatenation\<close>
  "rewrite_identity content new_role_escaped =
     re_sub identity_pattern
       ([BSL, CHR ''1''] @ new_role_escaped @ [BSL, CHR ''2'', CHR '' '', BSL, CHR ''3'']
          @ new_role_escaped @ [BSL, CHR ''4''])
       content"

definition bundle_pattern :: regex where
  \<comment> \<open>\<open>(<Bundle\s+)\<close>\<close>
  "bundle_pattern = [Group [Lit ''<Bundle'', Plus isspace]]"

definition mark_disabled :: "string \<Rightarrow> exn + string" where
  \<comment> \<open>line 97 of \<open>process_role\<close>\<close>
  \<open>mark_disabled content = re_sub bundle_pattern ([BSL, CHR ''1''] @ ''disabled="true" '') content\<close>


section \<open>The file system\<close>

text \<open>
  A path is its list of components, so \<open>os.path.join(root, name)\<close> is \<open>root @ [name]\<close> and
  \<open>os.path.dirname\<close> is \<open>butlast\<close>. The file system is a tree; the order of a directory's
  entries is the order in which \<open>os.walk\<close> lists them. A file operation fails as it does
  in Python (no such directory, a directory where a file is expected), and where the
  environment refuses it (\<open>deny_read\<close>, \<open>deny_write\<close>, \<open>deny_remove\<close>: permissions, a
  full disk, a locked file). Every such failure is \<open>OSError\<close>.

  A file holds text, the characters that its bytes decode to; a file that does not decode
  is one that the environment refuses to read. Reading in text mode gives every line end
  (\<open>\r\n\<close>, \<open>\r\<close>) as \<open>\n\<close>; writing stores the text as it is, as Python does where the
  line separator is \<open>\n\<close>. A write either stores the whole text or fails and changes
  nothing: a write that breaks off after the file was opened is not modelled.
\<close>

type_synonym path = "string list"

datatype node = File string | Dir "(string \<times> node) list"

fun lookup :: "node \<Rightarrow> path \<Rightarrow> node option" where
  "lookup n [] = Some n"
| "lookup (File c) (x # p) = None"
| "lookup (Dir es) (x # p) = (case map_of es x of None \<Rightarrow> None | Some ch \<Rightarrow> lookup ch p)"

definition exists :: "node \<Rightarrow> path \<Rightarrow> bool" where
  \<comment> \<open>\<open>os.path.exists\<close>\<close>
  "exists t p = (lookup t p \<noteq> None)"

definition file_text :: "node \<Rightarrow> path \<Rightarrow> string option" where
  \<comment> \<open>the text of the regular file at \<open>p\<close>, if there is one\<close>
  "file_text t p = (case lookup t p of Some (File c) \<Rightarrow> Some c | _ \<Rightarrow> None)"

definition isdir :: "node \<Rightarrow> path \<Rightarrow> bool" where
  \<comment> \<open>\<open>os.path.isdir\<close>\<close>
  "isdir t p = (case lookup t p of Some (Dir es) \<Rightarrow> True | _ \<Rightarrow> False)"

fun put :: "node \<Rightarrow> path \<Rightarrow> string \<Rightarrow> node option" where
  "put (File old) [] c = Some (File c)"
| "put (Dir es) [] c = None"
| "put (File old) (x # p) c = None"
| "put (Dir es) (x # p) c =
     (case map_of es x of
        None \<Rightarrow> if p = [] then Some (Dir (es @ [(x, File c)])) else None
      | Some ch \<Rightarrow>
          (case put ch p c of
             None \<Rightarrow> None
           | Some ch' \<Rightarrow> Some (Dir (AList.update x ch' es))))"

fun del :: "node \<Rightarrow> path \<Rightarrow> node option" where
  "del n [] = None"
| "del (File old) (x # p) = None"
| "del (Dir es) [x] =
     (case map_of es x of
        Some (File old) \<Rightarrow> Some (Dir (AList.delete x es))
      | _ \<Rightarrow> None)"
| "del (Dir es) (x # y # p) =
     (case map_of es x of
        None \<Rightarrow> None
      | Some ch \<Rightarrow>
          (case del ch (y # p) of
             None \<Rightarrow> None
           | Some ch' \<Rightarrow> Some (Dir (AList.update x ch' es))))"

fun walk :: "path \<Rightarrow> node \<Rightarrow> (path \<times> string list \<times> string list) list" where
  "walk root (File c) = []"
| "walk root (Dir es) =
     (root, [n. (n, Dir _) \<leftarrow> es], [n. (n, File _) \<leftarrow> es])
       # concat (map (\<lambda>(n, ch). walk (root @ [n]) ch) es)"

definition os_walk :: "node \<Rightarrow> path \<Rightarrow> (path \<times> string list \<times> string list) list" where
  \<comment> \<open>\<open>os.walk(folder)\<close>, top down; nothing when \<open>folder\<close> is not a directory\<close>
  "os_walk t folder = (case lookup t folder of None \<Rightarrow> [] | Some n \<Rightarrow> walk folder n)"

record env =
  deny_read :: "path \<Rightarrow> bool"
  deny_write :: "path \<Rightarrow> bool"
  deny_remove :: "path \<Rightarrow> bool"

fun universal_newlines :: "string \<Rightarrow> string" where
  "universal_newlines [] = []"
| "universal_newlines [c] = [if c = CHR 0x0D then CHR 0x0A else c]"
| "universal_newlines (c # d # s) =
     (if c = CHR 0x0D \<and> d = CHR 0x0A then CHR 0x0A # universal_newlines s
      else if c = CHR 0x0D then CHR 0x0A # universal_newlines (d # s)
      else c # universal_newlines (d # s))"

definition open_read :: "env \<Rightarrow> node \<Rightarrow> path \<Rightarrow> exn + string" where
  \<comment> \<open>\<open>open(p, 'r', encoding='utf-8').read()\<close>\<close>
  "open_read env t p =
     (if deny_read env p then Inl OSError
      else case file_text t p of None \<Rightarrow> Inl OSError | Some c \<Rightarrow> Inr (universal_newlines c))"

definition open_write :: "env \<Rightarrow> node \<Rightarrow> path \<Rightarrow> string \<Rightarrow> exn + node" where
  \<comment> \<open>\<open>open(p, 'w').write(c)\<close>\<close>
  "open_write env t p c =
     (if deny_write env p then Inl OSError
      else case put t p c of None \<Rightarrow> Inl OSError | Some t' \<Rightarrow> Inr t')"

definition os_remove :: "env \<Rightarrow> node \<Rightarrow> path \<Rightarrow> exn + node" where
  "os_remove env t p =
     (if deny_remove env p then Inl OSError
      else case del t p of None \<Rightarrow> Inl OSError | Some t' \<Rightarrow> Inr t')"

section \<open>The log\<close>

datatype level = INFO | WARNING | ERROR

datatype message =
    CsvFileNotFound
  | CsvHeaders "string list option"
  | SearchingForFile string
  | FoundFileAt path
  | FileNotFound string
  | NewFileCreated path
  | DisabledAndMoved path
  | OriginalFileRemoved path
  | UnexpectedErrorProcessing string exn
  | CsvFormatError
  | RolesNotFoundFileCreated path
  | ProcessCompleted
  | UnexpectedError exn

record world =
  tree :: node
  log :: "(level \<times> message) list"

definition logging :: "level \<Rightarrow> message \<Rightarrow> world \<Rightarrow> world" where
  "logging lv msg w = w\<lparr>log := log w @ [(lv, msg)]\<rparr>"

section \<open>The role processor and the batch runner\<close>

fun find_in_walk :: "(path \<times> string list \<times> string list) list \<Rightarrow> string \<Rightarrow> path option" where
  "find_in_walk [] file_name = None"
| "find_in_walk ((root, dirs, files) # rest) file_name =
     (if file_name \<in> set files then Some (root @ [file_name]) else find_in_walk rest file_name)"

definition find_file_recursive :: "node \<Rightarrow> path \<Rightarrow> string \<Rightarrow> path option" where
  "find_file_recursive t folder file_name = find_in_walk (os_walk t folder) file_name"

text \<open>
  The mapping file is given by the records that \<open>csv.reader\<close> reads from it, each a list
  of cells. A row of \<open>csv.DictReader\<close> is a dict from column names to cells; the cell of a
  column that a short line does not reach is \<open>None\<close>.
\<close>

type_synonym row = "string \<Rightarrow> string option option"

definition getitem :: "row \<Rightarrow> string \<Rightarrow> exn + string option" where
  \<comment> \<open>\<open>row[key]\<close>\<close>
  "getitem row key = (case row key of None \<Rightarrow> Inl KeyError | Some v \<Rightarrow> Inr v)"

definition strip_cell :: "string option \<Rightarrow> exn + string" where
  \<comment> \<open>\<open>v.strip()\<close>, which \<open>None\<close> does not have\<close>
  "strip_cell v = (case v of None \<Rightarrow> Inl AttributeError | Some s \<Rightarrow> Inr (strip s))"

definition role_try :: "env \<Rightarrow> path \<Rightarrow> path \<Rightarrow> path \<Rightarrow> string \<Rightarrow> string \<Rightarrow> world \<Rightarrow> exn \<times> world + world" where
  \<comment> \<open>the body of the \<open>try\<close> of \<open>process_role\<close>; an exception leaves with the world as it is then\<close>
  "role_try env old_file_path new_file_path disabled_folder old_file_name new_role_escaped w =
     (case open_read env (tree w) old_file_path of
        Inl e \<Rightarrow> Inl (e, w)
      | Inr content \<Rightarrow>
     (case rewrite_identity content new_role_escaped of
        Inl e \<Rightarrow> Inl (e, w)
      | Inr content_new \<Rightarrow>
     (case open_write env (tree w) new_file_path content_new of
        Inl e \<Rightarrow> Inl (e, w)
      | Inr t1 \<Rightarrow>
     (let w1 = logging INFO (NewFileCreated new_file_path) (w\<lparr>tree := t1\<rparr>) in
     (case mark_disabled content of
        Inl e \<Rightarrow> Inl (e, w1)
      | Inr content_disabled \<Rightarrow>
     (let disabled_file_path = disabled_folder @ [old_file_name] in
     (case open_write env (tree w1) disabled_file_path content_disabled of
        Inl e \<Rightarrow> Inl (e, w1)
      | Inr t2 \<Rightarrow>
     (let w2 = logging INFO (DisabledAndMoved disabled_file_path) (w1\<lparr>tree := t2\<rparr>) in
      if exists (tree w2) old_file_path
      then (case os_remove env (tree w2) old_file_path of
              Inl e \<Rightarrow> Inl (e, w2)
            | Inr t3 \<Rightarrow> Inr (logging INFO (OriginalFileRemoved old_file_path) (w2\<lparr>tree := t3\<rparr>)))
      else Inr w2))))))))"

definition process_role :: "env \<Rightarrow> row \<Rightarrow> path \<Rightarrow> path \<Rightarrow> world \<Rightarrow> exn + string option \<times> world" where
  \<comment> \<open>\<open>Inl\<close>: an exception leaves the function; \<open>Inr (r, w')\<close>: it returns \<open>r\<close>\<close>
  "process_role env row bundle_folder disabled_folder w =
     (case getitem row ''Original Role Name'' of Inl e \<Rightarrow> Inl e | Inr v1 \<Rightarrow>
     (case strip_cell v1 of Inl e \<Rightarrow> Inl e | Inr original_role \<Rightarrow>
     (case getitem row ''New Role Name'' of Inl e \<Rightarrow> Inl e | Inr v2 \<Rightarrow>
     (case strip_cell v2 of Inl e \<Rightarrow> Inl e | Inr new_role \<Rightarrow>
     (let new_role_escaped = escape_special_characters new_role in
     (case format_file_name original_role of Inl e \<Rightarrow> Inl e | Inr old_file_name \<Rightarrow>
     (case format_file_name new_role of Inl e \<Rightarrow> Inl e | Inr new_file_name \<Rightarrow>
     (let w0 = logging INFO (SearchingForFile old_file_name) w in
     (case find_file_recursive (tree w0) bundle_folder old_file_name of
        None \<Rightarrow> Inr (Some original_role, logging WARNING (FileNotFound old_file_name) w0)
      | Some old_file_path \<Rightarrow>
          (let w1 = logging INFO (FoundFileAt old_file_path) w0;
               new_file_path = butlast old_file_path @ [new_file_name]
           in (case role_try env old_file_path new_file_path disabled_folder old_file_name
                      new_role_escaped w1 of
                 Inl (e, w2) \<Rightarrow>
                   Inr (Some original_role,
                        logging ERROR (UnexpectedErrorProcessing old_file_name e) w2)
               | Inr w2 \<Rightarrow> Inr (None, w2))))))))))))"

definition fieldnames :: "string list list \<Rightarrow> string list option" where
  \<comment> \<open>the first record of the file, if it has one\<close>
  "fieldnames records = (case records of [] \<Rightarrow> None | h # _ \<Rightarrow> Some h)"

definition dict_row :: "string list \<Rightarrow> string list \<Rightarrow> row" where
  \<comment> \<open>\<open>dict(zip(fieldnames, line))\<close>, then \<open>None\<close> for the columns the line does not reach;
      what a longer line holds beyond the columns goes under the key \<open>None\<close>, which no
      lookup of the program uses\<close>
  "dict_row names line =
     map_of (rev (zip names (map Some line @ replicate (length names - length line) None)))"

definition reader_rows :: "string list list \<Rightarrow> row list" where
  \<comment> \<open>the rows \<open>csv.DictReader\<close> yields: one per record after the first, blank ones skipped\<close>
  "reader_rows records =
     (case records of [] \<Rightarrow> [] | h # rest \<Rightarrow> map (dict_row h) (filter (\<lambda>line. line \<noteq> []) rest))"

datatype loop_exit = Returned | Raised exn | Finished "string list"

definition truthy :: "string option \<Rightarrow> bool" where
  \<comment> \<open>\<open>if not_found_role:\<close>\<close>
  "truthy r = (case r of None \<Rightarrow> False | Some s \<Rightarrow> s \<noteq> [])"

fun rows_loop :: "env \<Rightarrow> row list \<Rightarrow> path \<Rightarrow> path \<Rightarrow> string list \<Rightarrow> world \<Rightarrow> loop_exit \<times> world" where
  "rows_loop env [] bundle_folder disabled_folder not_found_roles w = (Finished not_found_roles, w)"
| "rows_loop env (row # rows) bundle_folder disabled_folder not_found_roles w =
     (if row ''Original Role Name'' = None \<or> row ''New Role Name'' = None
      then (Returned, logging ERROR CsvFormatError w)
      else (case process_role env row bundle_folder disabled_folder w of
              Inl e \<Rightarrow> (Raised e, w)
            | Inr (not_found_role, w') \<Rightarrow>
                rows_loop env rows bundle_folder disabled_folder
                  (if truthy not_found_role then not_found_roles @ [the not_found_role]
                   else not_found_roles) w'))"

definition process_files :: "env \<Rightarrow> string list list option \<Rightarrow> path \<Rightarrow> path \<Rightarrow> world \<Rightarrow> world" where
  \<comment> \<open>\<open>csv_file\<close> is the records of the file at that path, \<open>None\<close> when the path does not exist\<close>
  "process_files env csv_file bundle_folder disabled_folder w =
     (case csv_file of
        None \<Rightarrow> logging ERROR CsvFileNotFound w
      | Some records \<Rightarrow>
          (case rows_loop env (reader_rows records) bundle_folder disabled_folder []
                  (logging INFO (CsvHeaders (fieldnames records)) w) of
             (Returned, w1) \<Rightarrow> w1
           | (Raised e, w1) \<Rightarrow> logging ERROR (UnexpectedError e) w1
           | (Finished not_found_roles, w1) \<Rightarrow>
               (if not_found_roles \<noteq> []
                then (let not_found_file = bundle_folder @ [''not_found_roles.txt''] in
                      case open_write env (tree w1) not_found_file
                             (concat (map (\<lambda>role. role @ [CHR 0x0A]) not_found_roles)) of
                        Inl e \<Rightarrow> logging ERROR (UnexpectedError e) w1
                      | Inr t \<Rightarrow>
                          logging INFO ProcessCompleted
                            (logging INFO (RolesNotFoundFileCreated not_found_file) (w1\<lparr>tree := t\<rparr>)))
                else logging INFO ProcessCompleted w1)))"

section \<open>What the specification says of the pure functions\<close>

definition xml_entity :: "char \<Rightarrow> string" where
  \<comment> \<open>the entity the specification gives for each of the five characters\<close>
  "xml_entity c =
     (if c = CHR ''&'' then ''&amp;''
      else if c = CHR ''<'' then ''&lt;''
      else if c = CHR ''>'' then ''&gt;''
      else if c = DQ then ''&quot;''
      else if c = APOS then ''&apos;''
      else [c])"

definition sanitize :: "char \<Rightarrow> char" where
  \<comment> \<open>a character that is not alphanumeric, underscore or hyphen becomes an underscore\<close>
  "sanitize c = (if isalnum c \<or> c = CHR ''_'' \<or> c = CHR ''-'' then c else CHR ''_'')"

definition isnamechar :: "char \<Rightarrow> bool" where
  \<comment> \<open>the class \<open>[A-Za-z0-9_-]\<close>\<close>
  "isnamechar c = (let n = (of_char c :: nat) in
     (65 \<le> n \<and> n \<le> 90) \<or> (97 \<le> n \<and> n \<le> 122) \<or> (48 \<le> n \<and> n \<le> 57)
     \<or> c = CHR ''_'' \<or> c = CHR ''-'')"

definition matches_name_pattern :: "string \<Rightarrow> bool" where
  \<comment> \<open>a full match of \<open>NAB_Bundle_[A-Za-z0-9_-]+\.xml\<close>\<close>
  "matches_name_pattern s =
     (prefix ''NAB_Bundle_'' s \<and> suffix ''.xml'' (drop 11 s) \<and>
      take (length s - 15) (drop 11 s) \<noteq> [] \<and>
      list_all isnamechar (take (length s - 15) (drop 11 s)))"

text \<open>
  \<open>insert_disabled\<close> is the marker insertion in the specification's words: after every
  occurrence of \<open><Bundle\<close> followed by whitespace (the token and the whole run of
  whitespace after it) the text \<open>disabled="true"\<close> and a space are inserted, and every
  other character is copied.
\<close>

function insert_disabled :: "string \<Rightarrow> string" where
  \<open>insert_disabled s =
     (if prefix ''<Bundle'' s \<and> takeWhile isspace (drop 7 s) \<noteq> []
      then ''<Bundle'' @ takeWhile isspace (drop 7 s) @ ''disabled="true" ''
             @ insert_disabled (dropWhile isspace (drop 7 s))
      else (case s of [] \<Rightarrow> [] | c # s' \<Rightarrow> c # insert_disabled s'))\<close>
  by pat_completeness auto
termination
proof (relation "measure length")
  fix s :: string
  assume "prefix ''<Bundle'' s \<and> takeWhile isspace (drop 7 s) \<noteq> []"
  then have "7 \<le> length s" by (auto simp: prefix_def)
  moreover have "length (dropWhile isspace (drop 7 s)) \<le> length (drop 7 s)"
    by (rule length_dropWhile_le)
  ultimately show "(dropWhile isspace (drop 7 s), s) \<in> measure length" by simp
qed auto

text \<open>
  \<open>rewrite_pairs\<close> is the identity rewrite in the specification's words. \<open>pair_at\<close> says
  whether the text starts with an occurrence: \<open>displayName="\<close>, any text without a double
  quote, \<open>"\<close>, whitespace, \<open>name="\<close>, any text without a double quote, \<open>"\<close>. Every
  occurrence, from left to right, is written back with the new name in both values (and
  a single space between the two attributes); every other character is copied.
\<close>

definition pair_at :: "string \<Rightarrow> string option" where
  \<open>pair_at s =
     (if \<not> prefix ''displayName="'' s then None
      else let s1 = dropWhile (\<lambda>c. c \<noteq> DQ) (drop 13 s) in
        if s1 = [] then None
        else let s2 = tl s1 in
          if takeWhile isspace s2 = [] then None
          else let s3 = dropWhile isspace s2 in
            if \<not> prefix ''name="'' s3 then None
            else let s4 = dropWhile (\<lambda>c. c \<noteq> DQ) (drop 6 s3) in
              if s4 = [] then None else Some (tl s4))\<close>

lemma pair_at_unfold:
  \<open>pair_at s =
     (if \<not> prefix ''displayName="'' s then None
      else if dropWhile (\<lambda>c. c \<noteq> DQ) (drop 13 s) = [] then None
      else if takeWhile isspace (tl (dropWhile (\<lambda>c. c \<noteq> DQ) (drop 13 s))) = [] then None
      else if \<not> prefix ''name="'' (dropWhile isspace (tl (dropWhile (\<lambda>c. c \<noteq> DQ) (drop 13 s)))) then None
      else if dropWhile (\<lambda>c. c \<noteq> DQ) (drop 6 (dropWhile isspace (tl (dropWhile (\<lambda>c. c \<noteq> DQ) (drop 13 s))))) = [] then None
      else Some (tl (dropWhile (\<lambda>c. c \<noteq> DQ) (drop 6 (dropWhile isspace (tl (dropWhile (\<lambda>c. c \<noteq> DQ) (drop 13 s))))))))\<close>
  unfolding pair_at_def Let_def ..


lemma pair_at_cases:
  obtains (none) "pair_at s = None"
  | (some) s1 s3 s4 where "s1 = dropWhile (\<lambda>c. c \<noteq> DQ) (drop 13 s)"
      and "s3 = dropWhile isspace (tl s1)"
      and "s4 = dropWhile (\<lambda>c. c \<noteq> DQ) (drop 6 s3)"
      and \<open>prefix ''displayName="'' s\<close> and "s1 \<noteq> []" and "takeWhile isspace (tl s1) \<noteq> []"
      and \<open>prefix ''name="'' s3\<close> and "s4 \<noteq> []" and "pair_at s = Some (tl s4)"
proof -
  define s1 where "s1 = dropWhile (\<lambda>c. c \<noteq> DQ) (drop 13 s)"
  define s3 where "s3 = dropWhile isspace (tl s1)"
  define s4 where "s4 = dropWhile (\<lambda>c. c \<noteq> DQ) (drop 6 s3)"
  have e: \<open>pair_at s =
     (if \<not> prefix ''displayName="'' s then None
      else if s1 = [] then None
      else if takeWhile isspace (tl s1) = [] then None
      else if \<not> prefix ''name="'' s3 then None
      else if s4 = [] then None
      else Some (tl s4))\<close>
    unfolding s1_def s3_def s4_def by (rule pair_at_unfold)
  show thesis
  proof (cases "pair_at s")
    case None
    then show ?thesis by (rule none)
  next
    case (Some rest)
    from Some have h: \<open>(if \<not> prefix ''displayName="'' s then None
      else if s1 = [] then None
      else if takeWhile isspace (tl s1) = [] then None
      else if \<not> prefix ''name="'' s3 then None
      else if s4 = [] then None
      else Some (tl s4)) = Some rest\<close>
      by (simp only: e)
    have a: \<open>prefix ''displayName="'' s\<close> using h by (simp split: if_splits)
    have b: "s1 \<noteq> []" using h by (simp split: if_splits)
    have c: "takeWhile isspace (tl s1) \<noteq> []" using h by (simp split: if_splits)
    have d: \<open>prefix ''name="'' s3\<close> using h by (simp split: if_splits)
    have f: "s4 \<noteq> []" using h by (simp split: if_splits)
    have "rest = tl s4" using h by (simp split: if_splits)
    with Some have g: "pair_at s = Some (tl s4)" by simp
    from s1_def s3_def s4_def a b c d f g show ?thesis by (rule some)
  qed
qed


lemma pair_at_shorter:
  assumes "pair_at s = Some rest"
  shows "length rest < length s"
proof (cases s rule: pair_at_cases)
  case none
  with assms show ?thesis by simp
next
  case (some s1 s3 s4)
  from some(9) assms have "rest = tl s4" by simp
  then have "length rest \<le> length s4" by simp
  also have "\<dots> \<le> length (drop 6 s3)" unfolding some(3) by (rule length_dropWhile_le)
  also have "\<dots> \<le> length s3" by simp
  also have "\<dots> \<le> length (tl s1)" unfolding some(2) by (rule length_dropWhile_le)
  also have "\<dots> \<le> length s1" by simp
  also have "\<dots> \<le> length (drop 13 s)" unfolding some(1) by (rule length_dropWhile_le)
  also have "\<dots> < length s" using some(4) by (auto simp: prefix_def)
  finally show ?thesis .
qed

function rewrite_pairs :: "string \<Rightarrow> string \<Rightarrow> string" where
  \<open>rewrite_pairs e s =
     (case pair_at s of
        Some rest \<Rightarrow> ''displayName="'' @ e @ ''" name="'' @ e @ ''"'' @ rewrite_pairs e rest
      | None \<Rightarrow> (case s of [] \<Rightarrow> [] | c # s' \<Rightarrow> c # rewrite_pairs e s'))\<close>
  by pat_completeness auto
termination
  by (relation "measure (\<lambda>(e, s). length s)") (auto dest: pair_at_shorter)


fun no_pair :: "string \<Rightarrow> bool" where
  \<comment> \<open>no occurrence of the attribute pair starts anywhere in the text\<close>
  "no_pair [] = True"
| "no_pair (c # s) = (pair_at (c # s) = None \<and> no_pair s)"

definition plain_name :: "string \<Rightarrow> bool" where
  \<comment> \<open>a name that the template parser reads as itself: no backslash, no digit in front\<close>
  "plain_name e = (BSL \<notin> set e \<and> (case e of [] \<Rightarrow> True | c # _ \<Rightarrow> \<not> isdigit c))"

section \<open>Escaping\<close>

declare sub_loop.simps [simp del]
declare try_lens.simps [simp del]
declare insert_disabled.simps [simp del]
declare rewrite_pairs.simps [simp del]

lemma replace_append: "replace k v (xs @ ys) = replace k v xs @ replace k v ys"
  by (simp add: replace_def)

lemma escape_append:
  "escape_special_characters (xs @ ys) = escape_special_characters xs @ escape_special_characters ys"
  by (simp add: escape_special_characters_def replacements_def replace_append)

lemma escape_single: "escape_special_characters [c] = xml_entity c"
  by (simp add: escape_special_characters_def replacements_def replace_def xml_entity_def)

lemma escape_entities: "escape_special_characters s = concat (map xml_entity s)"
proof (induction s)
  case Nil
  show ?case by (simp add: escape_special_characters_def replacements_def replace_def)
next
  case (Cons c s)
  have "escape_special_characters (c # s) = escape_special_characters ([c] @ s)" by simp
  also have "\<dots> = xml_entity c @ escape_special_characters s"
    by (simp only: escape_append escape_single)
  finally show ?case by (simp add: Cons.IH)
qed

text \<open>
  Claim C4. \<open>escape_special_characters\<close> applies the five replacements in the order
  \<open>&\<close>, \<open><\<close>, \<open>>\<close>, \<open>"\<close>, \<open>'\<close>. Since the ampersand goes first, the result is the
  character-by-character translation: no ampersand that a later replacement writes is
  escaped again. In particular \<open>A&B<C>"D'E\<close> becomes \<open>A&amp;B&lt;C&gt;&quot;D&apos;E\<close>.
\<close>

theorem escape_special_characters_order:
  "escape_special_characters role_name =
     replace APOS ''&apos;'' (replace DQ ''&quot;'' (replace (CHR ''>'') ''&gt;''
       (replace (CHR ''<'') ''&lt;'' (replace (CHR ''&'') ''&amp;'' role_name))))
   \<and> escape_special_characters role_name = concat (map xml_entity role_name)
   \<and> escape_special_characters (''A&B<C>'' @ [DQ] @ ''D'' @ [APOS] @ ''E'')
       = ''A&amp;B&lt;C&gt;&quot;D&apos;E''"
proof (intro conjI)
  show "escape_special_characters role_name =
     replace APOS ''&apos;'' (replace DQ ''&quot;'' (replace (CHR ''>'') ''&gt;''
       (replace (CHR ''<'') ''&lt;'' (replace (CHR ''&'') ''&amp;'' role_name))))"
    by (simp add: escape_special_characters_def replacements_def)
  show "escape_special_characters role_name = concat (map xml_entity role_name)"
    by (rule escape_entities)
  show "escape_special_characters (''A&B<C>'' @ [DQ] @ ''D'' @ [APOS] @ ''E'')
       = ''A&amp;B&lt;C&gt;&quot;D&apos;E''"
    by (simp add: escape_entities xml_entity_def)
qed

section \<open>The canonical file name\<close>

lemma parse_underscore: "parse_template 0 ''_'' = Inr [Literal (CHR ''_'')]"
  by (simp add: parse_template_def then_parts_def)

lemma match_at_class:
  "match_at False [Single (Cls P)] s =
     (case s of [] \<Rightarrow> None | c # r \<Rightarrow> if P c then Some ([[c]], [c], r) else None)"
  by (cases s) (simp_all add: match_at_def)

lemma sub_loop_class:
  "sub_loop [Single (Cls P)] [Literal u] False s = map (\<lambda>c. if P c then u else c) s"
proof (induction s)
  case Nil
  show ?case by (subst sub_loop.simps) (simp add: match_at_class)
next
  case (Cons c s)
  show ?case by (subst sub_loop.simps) (simp add: match_at_class Cons.IH)
qed

lemma format_file_name_eq:
  "format_file_name role_name = Inr (''NAB_Bundle_'' @ map sanitize role_name @ ''.xml'')"
  by (simp add: format_file_name_def re_sub_def parse_underscore sub_loop_class sanitize_def
      isword_def disj_ac cong: map_cong)

lemma matches_wrapped:
  "matches_name_pattern (''NAB_Bundle_'' @ body @ ''.xml'') = (body \<noteq> [] \<and> list_all isnamechar body)"
  by (simp add: matches_name_pattern_def suffix_def)

lemma of_char_lt_256: "(of_char (c::char) :: nat) < 256"
  by (cases c) (simp add: of_char_def)

lemma isnamechar_sanitize:
  "isnamechar (sanitize c) = (\<not> isalnum c \<or> (of_char c :: nat) < 128)"
  using of_char_lt_256 [of c]
  apply (simp add: isnamechar_def sanitize_def isalnum_def Let_def)
  apply auto
  done

text \<open>
  Claim C3, as the code has it. \<open>format_file_name\<close> returns for every role name (it never
  raises), and what it returns is \<open>NAB_Bundle_\<close>, the role name with every character
  that is not alphanumeric, underscore or hyphen replaced by an underscore, and \<open>.xml\<close>.
  That name matches \<open>NAB_Bundle_[A-Za-z0-9_-]+\.xml\<close> exactly when the role name is not
  empty and its alphanumeric characters are all ASCII: \<open>\w\<close> keeps every Unicode letter
  and digit, and an empty role name leaves nothing between the prefix and the suffix.
\<close>

theorem format_file_name_sanitized:
  "format_file_name role_name = Inr (''NAB_Bundle_'' @ map sanitize role_name @ ''.xml'')
   \<and> matches_name_pattern (''NAB_Bundle_'' @ map sanitize role_name @ ''.xml'')
       = (role_name \<noteq> [] \<and> list_all (\<lambda>c. \<not> isalnum c \<or> (of_char c :: nat) < 128) role_name)"
  using matches_wrapped [of "map sanitize role_name"]
  by (simp add: format_file_name_eq list_all_iff isnamechar_sanitize)

theorem format_file_name_sanitized_witness:
  "format_file_name ''Super Admin'' = Inr ''NAB_Bundle_Super_Admin.xml''
   \<and> matches_name_pattern ''NAB_Bundle_Super_Admin.xml''"
  using format_file_name_sanitized [of "''Super Admin''"]
  by (simp add: sanitize_def isalnum_def)

text \<open>
  The claim as stated fails for the empty role name and for a role name with a letter
  outside ASCII, here \<open>U+00E9\<close>.
\<close>

theorem format_file_name_pattern_counterexample:
  "format_file_name '''' = Inr ''NAB_Bundle_.xml''
   \<and> \<not> matches_name_pattern ''NAB_Bundle_.xml''
   \<and> format_file_name [CHR 0xE9] = Inr (''NAB_Bundle_'' @ [CHR 0xE9] @ ''.xml'')
   \<and> \<not> matches_name_pattern (''NAB_Bundle_'' @ [CHR 0xE9] @ ''.xml'')"
  by (simp add: format_file_name_eq sanitize_def isalnum_def matches_name_pattern_def isnamechar_def)

section \<open>A fixture: one role file in a bundle\<close>

definition permissive :: env where
  "permissive = \<lparr>deny_read = (\<lambda>p. False), deny_write = (\<lambda>p. False), deny_remove = (\<lambda>p. False)\<rparr>"

definition admin_text :: string where
  \<open>admin_text = ''<Bundle displayName="Admin" name="Admin">''\<close>

definition fixture_tree :: node where
  "fixture_tree =
     Dir [(''bundle'',
           Dir [(''00_Disabled'', Dir []),
                (''roles'', Dir [(''NAB_Bundle_Admin.xml'', File admin_text)])])]"

definition admin_row :: row where
  "admin_row = dict_row [''Original Role Name'', ''New Role Name''] [''Admin'', ''SuperAdmin'']"

definition archive_locked :: env where
  "archive_locked =
     \<lparr>deny_read = (\<lambda>p. False),
      deny_write = (\<lambda>p. butlast p = [''bundle'', ''00_Disabled'']),
      deny_remove = (\<lambda>p. False)\<rparr>"

definition original_locked :: env where
  "original_locked =
     \<lparr>deny_read = (\<lambda>p. False), deny_write = (\<lambda>p. False),
      deny_remove = (\<lambda>p. p = [''bundle'', ''roles'', ''NAB_Bundle_Admin.xml''])\<rparr>"

definition renamed_text :: string where
  \<open>renamed_text = ''<Bundle displayName="SuperAdmin" name="SuperAdmin">''\<close>

definition disabled_text :: string where
  \<open>disabled_text = ''<Bundle disabled="true" displayName="Admin" name="Admin">''\<close>

definition fixture_written :: node where
  "fixture_written =
     Dir [(''bundle'',
           Dir [(''00_Disabled'', Dir [(''NAB_Bundle_Admin.xml'', File disabled_text)]),
                (''roles'', Dir [(''NAB_Bundle_Admin.xml'', File admin_text),
                                 (''NAB_Bundle_SuperAdmin.xml'', File renamed_text)])])]"

definition archived_tree :: node where
  "archived_tree =
     Dir [(''bundle'', Dir [(''00_Disabled'', Dir [(''NAB_Bundle_Admin.xml'', File admin_text)])])]"

definition lacks_required_column :: "string list list \<Rightarrow> bool" where
  \<comment> \<open>the header, if there is one, misses one of the two column names\<close>
  "lacks_required_column records =
     (case records of
        [] \<Rightarrow> True
      | header # _ \<Rightarrow> ''Original Role Name'' \<notin> set header \<or> ''New Role Name'' \<notin> set header)"

definition data_lines :: "string list list \<Rightarrow> string list list" where
  \<comment> \<open>the records after the header that are not blank\<close>
  "data_lines records = filter (\<lambda>line. line \<noteq> []) (tl records)"

definition plain_tree :: node where
  \<open>plain_tree =
     Dir [(''bundle'',
           Dir [(''00_Disabled'', Dir []),
                (''roles'', Dir [(''NAB_Bundle_Admin.xml'', File ''<Bundle id="Admin">'')])])]\<close>

definition blank_tree :: node where
  "blank_tree =
     Dir [(''bundle'',
           Dir [(''00_Disabled'', Dir []),
                (''roles'', Dir [(''NAB_Bundle_.xml'', File admin_text)])])]"

definition admin_mapping :: "string list list" where
  "admin_mapping = [[''Original Role Name'', ''New Role Name''], [''Admin'', ''SuperAdmin'']]"

section \<open>The disabled marker\<close>

lemma parse_disabled_template:
  \<open>parse_template 1 ([BSL, CHR ''1''] @ ''disabled="true" '')
     = Inr (GroupRef 1 # map Literal ''disabled="true" '')\<close>
  by (simp add: parse_template_def then_parts_def addgroup_def next_in_def isdigit_def
      int_of_digits_def digit_value_def)

lemma expand_literals: "expand_template (map Literal s @ ps) gs = s @ expand_template ps gs"
  by (induction s) simp_all

lemma try_lens_last:
  "try_lens False [] s n lo = Some ([take n s], drop n s)"
  by (simp add: try_lens.simps)

lemma match_plus_last:
  "match_atoms False [Plus p] s =
     (if takeWhile p s = [] then None else Some ([takeWhile p s], dropWhile p s))"
  by (simp add: try_lens_last takeWhile_eq_take [symmetric] dropWhile_eq_drop [symmetric])

lemma match_at_bundle:
  "match_at False bundle_pattern s =
     (if prefix ''<Bundle'' s \<and> takeWhile isspace (drop 7 s) \<noteq> []
      then Some ([''<Bundle'' @ takeWhile isspace (drop 7 s), ''<Bundle'' @ takeWhile isspace (drop 7 s)],
                 ''<Bundle'' @ takeWhile isspace (drop 7 s),
                 dropWhile isspace (drop 7 s))
      else None)"
  unfolding match_at_def bundle_pattern_def
  by (simp add: match_plus_last eval_nat_numeral del: match_atoms.simps(5))

lemma sub_loop_bundle:
  \<open>sub_loop bundle_pattern (GroupRef 1 # map Literal ''disabled="true" '') False s = insert_disabled s\<close>
proof (induction s rule: insert_disabled.induct)
  case (1 s)
  let ?t = \<open>GroupRef 1 # map Literal ''disabled="true" ''\<close>
  show ?case
  proof (cases "prefix ''<Bundle'' s \<and> takeWhile isspace (drop 7 s) \<noteq> []")
    case True
    have a: \<open>sub_loop bundle_pattern ?t False s
          = ''<Bundle'' @ takeWhile isspace (drop 7 s) @ ''disabled="true" ''
             @ sub_loop bundle_pattern ?t False (dropWhile isspace (drop 7 s))\<close>
      using True by (subst sub_loop.simps) (simp add: match_at_bundle)
    have b: \<open>insert_disabled s
          = ''<Bundle'' @ takeWhile isspace (drop 7 s) @ ''disabled="true" ''
             @ insert_disabled (dropWhile isspace (drop 7 s))\<close>
      using True by (subst insert_disabled.simps) simp
    from a b "1.IH"(1) [OF True] show ?thesis by simp
  next
    case False
    have m: "match_at False bundle_pattern s = None"
      using False by (simp add: match_at_bundle)
    have a: "sub_loop bundle_pattern ?t False s
               = (case s of [] \<Rightarrow> [] | c # s' \<Rightarrow> c # sub_loop bundle_pattern ?t False s')"
      by (subst sub_loop.simps) (simp only: m option.case)
    have b: "insert_disabled s = (case s of [] \<Rightarrow> [] | c # s' \<Rightarrow> c # insert_disabled s')"
      by (subst insert_disabled.simps) (simp only: False if_False)
    show ?thesis
    proof (cases s)
      case Nil
      with a b show ?thesis by simp
    next
      case (Cons c s')
      with a b "1.IH"(2) [OF False Cons] show ?thesis by simp
    qed
  qed
qed

lemma ngroups_bundle: "ngroups bundle_pattern = 1"
  by (simp add: bundle_pattern_def)

lemma mark_disabled_eq: "mark_disabled content = Inr (insert_disabled content)"
  by (simp only: mark_disabled_def re_sub_def ngroups_bundle parse_disabled_template
      sub_loop_bundle sum.case)

text \<open>
  Claim C9. For every content, \<open>mark_disabled\<close> returns (it never raises) the content
  with \<open>disabled="true"\<close> and a space inserted after every occurrence of \<open><Bundle\<close>
  followed by whitespace, and nothing else changed.
\<close>

theorem mark_disabled_inserts:
  "mark_disabled content = Inr (insert_disabled content)"
  by (simp only: mark_disabled_def re_sub_def ngroups_bundle parse_disabled_template
      sub_loop_bundle sum.case)

section \<open>The identity rewrite\<close>

lemma match_lit_need:
  "match_atoms nd (Lit (c # l) # as) s = match_atoms nd' (Lit (c # l) # as) s"
  by simp

lemma match_lit_mismatch:
  "x \<noteq> c \<Longrightarrow> match_atoms nd (Lit (c # l) # as) (x # xs) = None"
  by simp

lemma try_lens_blocked:
  assumes "\<not> p c"
  shows "n < length (takeWhile p s) \<Longrightarrow> try_lens nd (Lit (c # l) # as) s n lo = None"
proof (induction n)
  case 0
  then obtain x xs where s: "s = x # xs" by (cases s) auto
  with 0 have "p x" by (auto split: if_splits)
  with assms have "x \<noteq> c" by auto
  then have "match_atoms (nd \<and> (0::nat) = 0) (Lit (c # l) # as) (drop 0 s) = None"
    unfolding s drop_0 by (rule match_lit_mismatch)
  then show ?case by (subst try_lens.simps) (simp only: option.case le0 if_True)
next
  case (Suc n)
  then have lt: "Suc n < length s" using length_takeWhile_le [of p s] by simp
  have "s ! Suc n = takeWhile p s ! Suc n" using Suc.prems by (simp add: takeWhile_nth)
  moreover have "takeWhile p s ! Suc n \<in> set (takeWhile p s)" using Suc.prems by simp
  ultimately have "p (s ! Suc n)" by (auto dest: set_takeWhileD)
  with assms have ne: "s ! Suc n \<noteq> c" by auto
  have d: "drop (Suc n) s = s ! Suc n # drop (Suc (Suc n)) s"
    using lt by (simp add: Cons_nth_drop_Suc)
  have m: "match_atoms (nd \<and> Suc n = 0) (Lit (c # l) # as) (drop (Suc n) s) = None"
    unfolding d using ne by (rule match_lit_mismatch)
  from Suc.prems have "n < length (takeWhile p s)" by simp
  from Suc.IH [OF this] have ih: "try_lens nd (Lit (c # l) # as) s n lo = None" .
  show ?case
    by (subst try_lens.simps) (simp only: m option.case ih diff_Suc_1 if_cancel)
qed

lemma try_lens_greedy:
  assumes "\<not> p c"
  shows "try_lens nd (Lit (c # l) # as) s (length (takeWhile p s)) lo
           = (case match_atoms False (Lit (c # l) # as) (dropWhile p s) of
                Some (ms, r) \<Rightarrow> Some (takeWhile p s # ms, r)
              | None \<Rightarrow> None)"
proof -
  let ?N = "length (takeWhile p s)"
  let ?as = "Lit (c # l) # as"
  have e: "match_atoms (nd \<and> ?N = 0) ?as (drop ?N s) = match_atoms False ?as (dropWhile p s)"
    unfolding dropWhile_eq_drop [symmetric] by (rule match_lit_need)
  have u: "try_lens nd ?as s ?N lo
             = (case match_atoms False ?as (dropWhile p s) of
                  Some (ms, r) \<Rightarrow> Some (take ?N s # ms, r)
                | None \<Rightarrow> if ?N \<le> lo then None else try_lens nd ?as s (?N - 1) lo)"
    by (subst try_lens.simps) (simp only: e)
  show ?thesis
  proof (cases "match_atoms False ?as (dropWhile p s)")
    case None
    show ?thesis
    proof (cases "?N \<le> lo")
      case True
      with u None show ?thesis by (simp only: option.case if_True)
    next
      case False
      then have "?N - 1 < ?N" by simp
      from try_lens_blocked [OF assms this] have "try_lens nd ?as s (?N - 1) lo = None" .
      with u None False show ?thesis by (simp only: option.case if_False)
    qed
  next
    case (Some a)
    obtain ms r where a: "a = (ms, r)" by (cases a)
    have "take ?N s = takeWhile p s" by (rule takeWhile_eq_take [symmetric])
    with u Some a show ?thesis by (simp only: option.case prod.case)
  qed
qed

lemma match_quote_after_value:
  assumes "t = dropWhile (\<lambda>c. c \<noteq> DQ) u"
  shows "match_atoms False (Lit [DQ] # as) t
           = (if t = [] then None
              else map_option (\<lambda>(ms, r). ([DQ] # ms, r)) (match_atoms False as (tl t)))"
proof (cases t)
  case Nil
  then show ?thesis by simp
next
  case (Cons x xs)
  have "\<not> (hd t \<noteq> DQ)"
    using Cons unfolding assms by (metis (mono_tags, lifting) hd_dropWhile list.distinct(1))
  with Cons have "x = DQ" by simp
  with Cons show ?thesis by simp
qed

lemma match_value:
  "match_atoms False (Star (\<lambda>c. c \<noteq> DQ) # Lit [DQ] # as) t
     = (case match_atoms False (Lit [DQ] # as) (dropWhile (\<lambda>c. c \<noteq> DQ) t) of
          Some (ms, r) \<Rightarrow> Some (takeWhile (\<lambda>c. c \<noteq> DQ) t # ms, r)
        | None \<Rightarrow> None)"
proof -
  have "try_lens False (Lit [DQ] # as) t (length (takeWhile (\<lambda>c. c \<noteq> DQ) t)) 0
          = (case match_atoms False (Lit [DQ] # as) (dropWhile (\<lambda>c. c \<noteq> DQ) t) of
               Some (ms, r) \<Rightarrow> Some (takeWhile (\<lambda>c. c \<noteq> DQ) t # ms, r)
             | None \<Rightarrow> None)"
    by (rule try_lens_greedy [where p = "\<lambda>c. c \<noteq> DQ" and c = DQ and l = "[]"]) simp
  then show ?thesis by (simp only: match_atoms.simps)
qed

lemma match_spaces:
  assumes "\<not> isspace c"
  shows "match_atoms False (Plus isspace # Lit (c # l) # as) t
     = (if takeWhile isspace t = [] then None
        else case match_atoms False (Lit (c # l) # as) (dropWhile isspace t) of
               Some (ms, r) \<Rightarrow> Some (takeWhile isspace t # ms, r)
             | None \<Rightarrow> None)"
  using try_lens_greedy [where p = isspace and c = c and l = l and nd = False and as = as
      and s = t and lo = 1, OF assms]
  by (simp only: match_atoms.simps)

lemma atoms_identity:
  \<open>concat (map atoms_of identity_pattern)
     = [Lit ''displayName="'', Star (\<lambda>c. c \<noteq> DQ), Lit [DQ], Plus isspace,
        Lit ''name="'', Star (\<lambda>c. c \<noteq> DQ), Lit [DQ]]\<close>
  by (simp add: identity_pattern_def)

lemma match_identity_atoms:
  \<open>match_atoms False
      [Lit ''displayName="'', Star (\<lambda>c. c \<noteq> DQ), Lit [DQ], Plus isspace,
       Lit ''name="'', Star (\<lambda>c. c \<noteq> DQ), Lit [DQ]] s
    = (case pair_at s of
         None \<Rightarrow> None
       | Some rest \<Rightarrow>
           Some ([''displayName="'', takeWhile (\<lambda>c. c \<noteq> DQ) (drop 13 s), [DQ],
                  takeWhile isspace (tl (dropWhile (\<lambda>c. c \<noteq> DQ) (drop 13 s))),
                  ''name="'',
                  takeWhile (\<lambda>c. c \<noteq> DQ)
                    (drop 6 (dropWhile isspace (tl (dropWhile (\<lambda>c. c \<noteq> DQ) (drop 13 s))))),
                  [DQ]], rest))\<close>
proof -
  let ?q = "\<lambda>c. c \<noteq> DQ"
  define s1 where "s1 = dropWhile ?q (drop 13 s)"
  define s3 where "s3 = dropWhile isspace (tl s1)"
  define s4 where "s4 = dropWhile ?q (drop 6 s3)"
  define v1 where "v1 = takeWhile ?q (drop 13 s)"
  define ws where "ws = takeWhile isspace (tl s1)"
  define v2 where "v2 = takeWhile ?q (drop 6 s3)"
  have e: \<open>pair_at s =
     (if \<not> prefix ''displayName="'' s then None
      else if s1 = [] then None
      else if ws = [] then None
      else if \<not> prefix ''name="'' s3 then None
      else if s4 = [] then None
      else Some (tl s4))\<close>
    unfolding s1_def s3_def s4_def ws_def by (rule pair_at_unfold)
  have h7: "match_atoms False [Lit [DQ]] s4 = (if s4 = [] then None else Some ([[DQ]], tl s4))"
    by (simp only: match_quote_after_value [OF s4_def]) simp
  have h6: "match_atoms False [Star ?q, Lit [DQ]] (drop 6 s3)
              = (if s4 = [] then None else Some ([v2, [DQ]], tl s4))"
    by (simp only: match_value s4_def [symmetric] v2_def [symmetric] h7) simp
  have h5: \<open>match_atoms False [Lit ''name="'', Star ?q, Lit [DQ]] s3
              = (if \<not> prefix ''name="'' s3 then None
                 else if s4 = [] then None else Some ([''name="'', v2, [DQ]], tl s4))\<close>
  proof -
    have l: \<open>length ''name="'' = 6\<close> by simp
    show ?thesis
      by (subst match_atoms.simps(2)) (simp only: l simp_thms h6, simp)
  qed
  have ns: "\<not> isspace (CHR ''n'')" by (simp add: isspace_def)
  have h4: \<open>match_atoms False [Plus isspace, Lit ''name="'', Star ?q, Lit [DQ]] (tl s1)
              = (if ws = [] then None
                 else if \<not> prefix ''name="'' s3 then None
                 else if s4 = [] then None
                 else Some ([ws, ''name="'', v2, [DQ]], tl s4))\<close>
    by (simp only: match_spaces [OF ns] s3_def [symmetric] ws_def [symmetric] h5) simp
  have h3: \<open>match_atoms False [Lit [DQ], Plus isspace, Lit ''name="'', Star ?q, Lit [DQ]] s1
              = (if s1 = [] then None
                 else if ws = [] then None
                 else if \<not> prefix ''name="'' s3 then None
                 else if s4 = [] then None
                 else Some ([[DQ], ws, ''name="'', v2, [DQ]], tl s4))\<close>
    by (simp only: match_quote_after_value [OF s1_def] h4) simp
  have h2: \<open>match_atoms False
               [Star ?q, Lit [DQ], Plus isspace, Lit ''name="'', Star ?q, Lit [DQ]] (drop 13 s)
              = (if s1 = [] then None
                 else if ws = [] then None
                 else if \<not> prefix ''name="'' s3 then None
                 else if s4 = [] then None
                 else Some ([v1, [DQ], ws, ''name="'', v2, [DQ]], tl s4))\<close>
    by (simp only: match_value s1_def [symmetric] v1_def [symmetric] h3) simp
  have h1: \<open>match_atoms False
               [Lit ''displayName="'', Star ?q, Lit [DQ], Plus isspace, Lit ''name="'',
                Star ?q, Lit [DQ]] s
              = (if \<not> prefix ''displayName="'' s then None
                 else if s1 = [] then None
                 else if ws = [] then None
                 else if \<not> prefix ''name="'' s3 then None
                 else if s4 = [] then None
                 else Some ([''displayName="'', v1, [DQ], ws, ''name="'', v2, [DQ]], tl s4))\<close>
  proof -
    have l: \<open>length ''displayName="'' = 13\<close> by simp
    show ?thesis
      by (subst match_atoms.simps(2)) (simp only: l simp_thms h2, simp)
  qed
  have \<open>match_atoms False
               [Lit ''displayName="'', Star ?q, Lit [DQ], Plus isspace, Lit ''name="'',
                Star ?q, Lit [DQ]] s
          = (case pair_at s of
               None \<Rightarrow> None
             | Some rest \<Rightarrow> Some ([''displayName="'', v1, [DQ], ws, ''name="'', v2, [DQ]], rest))\<close>
    unfolding h1 e by simp
  then show ?thesis
    unfolding v1_def ws_def v2_def s3_def s1_def .
qed

lemma match_at_identity:
  \<open>match_at False identity_pattern s
    = (case pair_at s of
         None \<Rightarrow> None
       | Some rest \<Rightarrow>
           Some ([take (length s - length rest) s, ''displayName="'', [DQ], ''name="'', [DQ]],
                 take (length s - length rest) s, rest))\<close>
proof (cases "pair_at s")
  case None
  then show ?thesis
    unfolding match_at_def atoms_identity match_identity_atoms by simp
next
  case (Some rest)
  then obtain gs m where g: "match_at False identity_pattern s = Some (gs, m, rest)"
    and gs: \<open>tl gs = [''displayName="'', [DQ], ''name="'', [DQ]]\<close> and hd: "hd gs = m"
    unfolding match_at_def atoms_identity match_identity_atoms
    by (simp add: identity_pattern_def)
  from match_at_splits(1) [OF g] have "m = take (length s - length rest) s" by simp
  moreover from g have "gs \<noteq> []" by (auto simp: match_at_def split: option.splits)
  ultimately show ?thesis using g gs hd Some by (cases gs) simp_all
qed

lemma tokenize_plain:
  "BSL \<notin> set e \<Longrightarrow>
     tokenize (e @ t) = (case tokenize t of Inl x \<Rightarrow> Inl x | Inr ts \<Rightarrow> Inr (map Ch e @ ts))"
proof (induction e)
  case Nil
  show ?case by (simp split: sum.splits)
next
  case (Cons c e)
  then have c: "c \<noteq> BSL" and e: "BSL \<notin> set e" by auto
  show ?case
  proof (cases "e @ t")
    case Nil
    with c show ?thesis by simp
  next
    case (Cons d u)
    have "tokenize ((c # e) @ t) = tokenize (c # d # u)" using Cons by simp
    also have "\<dots> = (case tokenize (d # u) of Inl x \<Rightarrow> Inl x | Inr ts \<Rightarrow> Inr (Ch c # ts))"
      using c by simp
    also have "tokenize (d # u) = tokenize (e @ t)" using Cons by simp
    finally show ?thesis using Cons.IH [OF e] by (simp split: sum.splits)
  qed
qed

lemma tokenize_template:
  assumes "BSL \<notin> set e"
  shows "tokenize ([BSL, CHR ''1''] @ e @ [BSL, CHR ''2'', CHR '' '', BSL, CHR ''3''] @ e
                     @ [BSL, CHR ''4''])
           = Inr (Esc (CHR ''1'') # map Ch e @ [Esc (CHR ''2''), Ch (CHR '' ''), Esc (CHR ''3'')]
                    @ map Ch e @ [Esc (CHR ''4'')])"
proof -
  have a: "tokenize (e @ [BSL, CHR ''4'']) = Inr (map Ch e @ [Esc (CHR ''4'')])"
    by (simp add: tokenize_plain [OF assms])
  have b: "tokenize ([BSL, CHR ''2'', CHR '' '', BSL, CHR ''3''] @ e @ [BSL, CHR ''4''])
             = Inr ([Esc (CHR ''2''), Ch (CHR '' ''), Esc (CHR ''3'')] @ map Ch e @ [Esc (CHR ''4'')])"
    using a by simp
  have c: "tokenize (e @ [BSL, CHR ''2'', CHR '' '', BSL, CHR ''3''] @ e @ [BSL, CHR ''4''])
             = Inr (map Ch e @ [Esc (CHR ''2''), Ch (CHR '' ''), Esc (CHR ''3'')] @ map Ch e
                      @ [Esc (CHR ''4'')])"
    by (simp only: tokenize_plain [OF assms] b sum.case)
  then show ?thesis by simp
qed

lemma then_parts_then_parts: "then_parts a (then_parts b r) = then_parts (a @ b) r"
  by (cases r) (simp_all add: then_parts_def)

lemma then_parts_Inr: "then_parts a (Inr b) = Inr (a @ b)"
  by (simp add: then_parts_def)

lemma parse_plain_tokens:
  "parse_tokens g (map Ch e @ ts) = then_parts (map Literal e) (parse_tokens g ts)"
proof (induction e)
  case Nil
  show ?case by (cases "parse_tokens g ts") (simp_all add: then_parts_def)
next
  case (Cons c e)
  then show ?case by (simp add: then_parts_then_parts)
qed

lemma next_in_plain:
  "plain_name e \<Longrightarrow> \<not> next_in isdigit (map Ch e @ Esc d # ts)"
  by (cases e) (simp_all add: plain_name_def next_in_def)

lemma parse_group_digit:
  assumes "\<not> next_in isdigit ts" and "isdigit d" and "d \<noteq> CHR ''0''" and "digit_value d \<le> g"
  shows "parse_tokens g (Esc d # ts) = then_parts [GroupRef (digit_value d)] (parse_tokens g ts)"
proof -
  have "d \<noteq> CHR ''g''" using assms(2) by (auto simp: isdigit_def)
  with assms show ?thesis
    by (simp add: addgroup_def int_of_digits_def)
qed

lemma parse_identity_template:
  assumes "plain_name e"
  shows "parse_template 4 ([BSL, CHR ''1''] @ e @ [BSL, CHR ''2'', CHR '' '', BSL, CHR ''3''] @ e
                             @ [BSL, CHR ''4''])
           = Inr (GroupRef 1 # map Literal e @ [GroupRef 2, Literal (CHR '' ''), GroupRef 3]
                    @ map Literal e @ [GroupRef 4])"
proof -
  from assms have nb: "BSL \<notin> set e" by (simp add: plain_name_def)
  have d: "isdigit (CHR ''1'')" "isdigit (CHR ''2'')" "isdigit (CHR ''3'')" "isdigit (CHR ''4'')"
    "digit_value (CHR ''1'') = 1" "digit_value (CHR ''2'') = 2" "digit_value (CHR ''3'') = 3"
    "digit_value (CHR ''4'') = 4"
    by (simp_all add: isdigit_def digit_value_def)
  have n4: "\<not> next_in isdigit []" by (simp add: next_in_def)
  have n2: "\<not> next_in isdigit (Ch (CHR '' '') # Esc (CHR ''3'') # map Ch e @ [Esc (CHR ''4'')])"
    by (simp add: next_in_def isdigit_def)
  have p4: "parse_tokens 4 [Esc (CHR ''4'')] = Inr [GroupRef 4]"
    using parse_group_digit [OF n4, of "CHR ''4''" 4]
    by (simp add: d then_parts_def del: parse_tokens.simps(3))
  have p3: "parse_tokens 4 (Esc (CHR ''3'') # map Ch e @ [Esc (CHR ''4'')])
              = Inr (GroupRef 3 # map Literal e @ [GroupRef 4])"
    using parse_group_digit [OF next_in_plain [OF assms, of "CHR ''4''" "[]"], of "CHR ''3''" 4]
    by (simp add: d parse_plain_tokens p4 then_parts_Inr del: parse_tokens.simps(3))
  have p2: "parse_tokens 4 (Esc (CHR ''2'') # Ch (CHR '' '') # Esc (CHR ''3'') # map Ch e
                             @ [Esc (CHR ''4'')])
              = Inr (GroupRef 2 # Literal (CHR '' '') # GroupRef 3 # map Literal e @ [GroupRef 4])"
    using parse_group_digit [OF n2, of "CHR ''2''" 4]
    by (simp add: d p3 then_parts_Inr del: parse_tokens.simps(3))
  have p1: "parse_tokens 4 (Esc (CHR ''1'') # map Ch e @ Esc (CHR ''2'') # Ch (CHR '' '')
                             # Esc (CHR ''3'') # map Ch e @ [Esc (CHR ''4'')])
              = Inr (GroupRef 1 # map Literal e @ GroupRef 2 # Literal (CHR '' '') # GroupRef 3
                       # map Literal e @ [GroupRef 4])"
    using parse_group_digit [OF next_in_plain [OF assms, of "CHR ''2''"
          "Ch (CHR '' '') # Esc (CHR ''3'') # map Ch e @ [Esc (CHR ''4'')]"], of "CHR ''1''" 4]
    by (simp add: d parse_plain_tokens p2 then_parts_Inr del: parse_tokens.simps(3))
  show ?thesis
    unfolding parse_template_def tokenize_template [OF nb] using p1
    by (simp del: parse_tokens.simps(3))
qed

lemma expand_identity:
  \<open>expand_template
      (GroupRef 1 # map Literal e @ [GroupRef 2, Literal (CHR '' ''), GroupRef 3]
         @ map Literal e @ [GroupRef 4])
      [m, ''displayName="'', [DQ], ''name="'', [DQ]]
    = ''displayName="'' @ e @ ''" name="'' @ e @ ''"''\<close>
proof -
  have a: \<open>expand_template (map Literal e @ [GroupRef 4]) [m, ''displayName="'', [DQ], ''name="'', [DQ]]
             = e @ ''"''\<close>
    by (simp add: expand_literals)
  have b: \<open>expand_template (map Literal e @ [GroupRef 2, Literal (CHR '' ''), GroupRef 3]
                               @ map Literal e @ [GroupRef 4])
             [m, ''displayName="'', [DQ], ''name="'', [DQ]]
             = e @ ''" name="'' @ e @ ''"''\<close>
    by (simp add: expand_literals a)
  show ?thesis using b by simp
qed

lemma sub_loop_identity:
  \<open>sub_loop identity_pattern
      (GroupRef 1 # map Literal e @ [GroupRef 2, Literal (CHR '' ''), GroupRef 3]
         @ map Literal e @ [GroupRef 4]) False s
    = rewrite_pairs e s\<close>
proof (induction e s rule: rewrite_pairs.induct)
  case (1 e s)
  let ?t = "GroupRef 1 # map Literal e @ [GroupRef 2, Literal (CHR '' ''), GroupRef 3]
              @ map Literal e @ [GroupRef 4]"
  show ?case
  proof (cases "pair_at s")
    case None
    have m: "match_at False identity_pattern s = None"
      by (simp only: match_at_identity None option.case)
    have a: "sub_loop identity_pattern ?t False s
               = (case s of [] \<Rightarrow> [] | c # s' \<Rightarrow> c # sub_loop identity_pattern ?t False s')"
      by (subst sub_loop.simps) (simp only: m option.case)
    have b: "rewrite_pairs e s = (case s of [] \<Rightarrow> [] | c # s' \<Rightarrow> c # rewrite_pairs e s')"
      by (subst rewrite_pairs.simps) (simp only: None option.case)
    show ?thesis
    proof (cases s)
      case Nil
      with a b show ?thesis by simp
    next
      case (Cons c s')
      with a b "1.IH"(1) [OF None Cons] show ?thesis by simp
    qed
  next
    case (Some rest)
    let ?m = "take (length s - length rest) s"
    have m: \<open>match_at False identity_pattern s
               = Some ([?m, ''displayName="'', [DQ], ''name="'', [DQ]], ?m, rest)\<close>
      by (simp only: match_at_identity Some option.case)
    from pair_at_shorter [OF Some] have "?m \<noteq> []" by auto
    then have f: "(?m = []) = False" by simp
    have a: \<open>sub_loop identity_pattern ?t False s
               = ''displayName="'' @ e @ ''" name="'' @ e @ ''"''
                   @ sub_loop identity_pattern ?t False rest\<close>
      by (subst sub_loop.simps) (simp only: m option.case prod.case expand_identity f append_assoc)
    have b: \<open>rewrite_pairs e s
               = ''displayName="'' @ e @ ''" name="'' @ e @ ''"'' @ rewrite_pairs e rest\<close>
      by (subst rewrite_pairs.simps) (simp only: Some option.case)
    from a b "1.IH"(2) [OF Some] show ?thesis by simp
  qed
qed

lemma ngroups_identity: "ngroups identity_pattern = 4"
  by (simp add: identity_pattern_def)

lemma rewrite_identity_plain:
  assumes "plain_name e"
  shows "rewrite_identity content e = Inr (rewrite_pairs e content)"
  unfolding rewrite_identity_def re_sub_def ngroups_identity
  by (simp only: parse_identity_template [OF assms] sum.case sub_loop_identity)

lemma pair_at_Nil: "pair_at [] = None"
  by (simp add: pair_at_def)

lemma rewrite_pairs_no_pair: "no_pair s \<Longrightarrow> rewrite_pairs e s = s"
proof (induction s)
  case Nil
  show ?case by (subst rewrite_pairs.simps) (simp add: pair_at_Nil)
next
  case (Cons c s)
  then have "pair_at (c # s) = None" and "rewrite_pairs e s = s" by simp_all
  then show ?case by (subst rewrite_pairs.simps) simp
qed

text \<open>
  Claim C2, as the code has it. For every content and every escaped new name that the
  template parser reads as itself (no backslash in it, no digit in front),
  \<open>rewrite_identity\<close> returns the content with every occurrence of the attribute pair
  written back with the new name in both quoted values and one space between the two
  attributes; every other character is copied.
\<close>

theorem rewrite_identity_rewrites_pairs:
  assumes "plain_name new_role_escaped"
  shows "rewrite_identity content new_role_escaped = Inr (rewrite_pairs new_role_escaped content)"
  using assms by (rule rewrite_identity_plain)

theorem rewrite_identity_rewrites_pairs_witness:
  \<open>plain_name ''SuperAdmin''
   \<and> rewrite_identity ''<Bundle displayName="Admin" name="Admin"><B displayName="x" name="y"/>''
        ''SuperAdmin''
     = Inr ''<Bundle displayName="SuperAdmin" name="SuperAdmin"><B displayName="SuperAdmin" name="SuperAdmin"/>''\<close>
proof -
  have p: "plain_name ''SuperAdmin''" by (simp add: plain_name_def isdigit_def)
  have r: \<open>rewrite_pairs ''SuperAdmin''
             ''<Bundle displayName="Admin" name="Admin"><B displayName="x" name="y"/>''
           = ''<Bundle displayName="SuperAdmin" name="SuperAdmin"><B displayName="SuperAdmin" name="SuperAdmin"/>''\<close>
    by code_simp
  from rewrite_identity_rewrites_pairs [OF p] r p show ?thesis by simp
qed

text \<open>
  The claim as stated fails in two ways. The whitespace between the two attributes is
  part of the match and comes back as one space, so a line break there is not left
  untouched. And the new name is joined into the replacement string before \<open>re.sub\<close>
  reads it as a template: after \<open>\1\<close> the name \<open>2024 Admin\<close> reads as the octal escape
  \<open>\120\<close> (the letter P) and \<open>24 Admin\<close>, and the name \<open>1A\<close> as group 11, which the pattern
  does not have; a backslash in the name starts an escape of its own.
\<close>

theorem rewrite_identity_counterexample:
  \<open>rewrite_identity (''<Bundle displayName="Admin"'' @ [CHR 0x0A] @ ''   name="Admin">'') ''SuperAdmin''
     = Inr ''<Bundle displayName="SuperAdmin" name="SuperAdmin">''
   \<and> rewrite_identity ''<Bundle displayName="Admin" name="Admin">'' ''2024 Admin''
     = Inr (''<Bundle P24 Admin" '' @ [CHR 0xD0] @ ''24 Admin">'')
   \<and> rewrite_identity ''<Bundle displayName="Admin" name="Admin">'' ''1A'' = Inl TemplateError\<close>
  by code_simp

lemma rewrite_identity_template_defect:
  \<open>rewrite_identity ''<Bundle displayName="Admin" name="Admin">'' (''A'' @ [BSL] @ ''B'')
     = Inl TemplateError
   \<and> rewrite_identity ''<Bundle displayName="Admin" name="Admin">'' (''A'' @ [BSL])
     = Inr (''<Bundle displayName="A'' @ [BSL] @ ''2 name="A'' @ [BSL] @ ''4>'')\<close>
  by code_simp

section \<open>Reading a tree after a write or a removal\<close>

lemma lookup_append:
  "lookup t (p @ q) = (case lookup t p of None \<Rightarrow> None | Some n \<Rightarrow> lookup n q)"
  by (induction t p rule: lookup.induct) (auto split: option.splits)

lemma put_lookup_same: "put t p c = Some t' \<Longrightarrow> lookup t' p = Some (File c)"
  by (induction t p c arbitrary: t' rule: put.induct)
    (auto simp: update_conv' split: option.splits if_splits)

lemma put_lookup_other:
  "put t p c = Some t' \<Longrightarrow> \<not> prefix q p \<Longrightarrow> lookup t' q = lookup t q"
proof (induction t p c arbitrary: t' q rule: put.induct)
  case (1 old c)
  then show ?case by (cases q) auto
next
  case (2 es c)
  then show ?case by simp
next
  case (3 old x p c)
  then show ?case by simp
next
  case (4 es x p c)
  from "4.prems"(2) obtain y q' where q: "q = y # q'" by (cases q) auto
  show ?case
  proof (cases "map_of es x")
    case None
    with "4.prems" q show ?thesis
      by (cases q') (auto simp: map_add_def split: if_splits option.splits)
  next
    case (Some ch)
    with "4.prems"(1) obtain ch' where ch': "put ch p c = Some ch'" and t': "t' = Dir (AList.update x ch' es)"
      by (auto split: option.splits)
    show ?thesis
    proof (cases "y = x")
      case True
      with "4.prems"(2) q have "\<not> prefix q' p" by simp
      from "4.IH" [OF Some ch' this] show ?thesis
        by (simp add: q t' True update_conv' Some)
    next
      case False
      then show ?thesis by (simp add: q t' update_conv')
    qed
  qed
qed

lemma put_lookup_prefix:
  "put t p c = Some t' \<Longrightarrow> strict_prefix q p
     \<Longrightarrow> (\<exists>es. lookup t q = Some (Dir es)) \<and> (\<exists>es. lookup t' q = Some (Dir es))"
proof (induction t p c arbitrary: t' q rule: put.induct)
  case (4 es x p c)
  show ?case
  proof (cases q)
    case Nil
    with "4.prems" show ?thesis by (auto split: option.splits if_splits)
  next
    case (Cons y q')
    with "4.prems"(2) have y: "y = x" and sp: "strict_prefix q' p" by auto
    show ?thesis
    proof (cases "map_of es x")
      case None
      with "4.prems"(1) sp show ?thesis by (auto split: if_splits)
    next
      case (Some ch)
      with "4.prems"(1) obtain ch' where ch': "put ch p c = Some ch'" and t': "t' = Dir (AList.update x ch' es)"
        by (auto split: option.splits)
      from "4.IH" [OF Some ch' sp] show ?thesis
        by (simp add: Cons y t' update_conv' Some)
    qed
  qed
qed auto

lemma put_file_text:
  assumes "put t p c = Some t'"
  shows "file_text t' q = (if q = p then Some c else file_text t q)"
proof (cases "q = p")
  case True
  with put_lookup_same [OF assms] show ?thesis by (simp add: file_text_def)
next
  case False
  show ?thesis
  proof (cases "prefix q p")
    case True
    with False have "strict_prefix q p" by (simp add: strict_prefix_def)
    from put_lookup_prefix [OF assms this] False show ?thesis by (auto simp: file_text_def)
  next
    case np: False
    from put_lookup_other [OF assms np] False show ?thesis by (simp add: file_text_def)
  qed
qed

lemma put_isdir:
  assumes "put t p c = Some t'"
  shows "isdir t' q = (q \<noteq> p \<and> isdir t q)"
proof (cases "q = p")
  case True
  with put_lookup_same [OF assms] show ?thesis by (simp add: isdir_def)
next
  case False
  show ?thesis
  proof (cases "prefix q p")
    case True
    with False have "strict_prefix q p" by (simp add: strict_prefix_def)
    from put_lookup_prefix [OF assms this] False show ?thesis by (auto simp: isdir_def)
  next
    case np: False
    from put_lookup_other [OF assms np] False show ?thesis by (simp add: isdir_def)
  qed
qed

lemma put_succeeds:
  "isdir t d \<Longrightarrow> \<not> isdir t (d @ [x]) \<Longrightarrow> \<exists>t'. put t (d @ [x]) c = Some t'"
proof (induction t d arbitrary: rule: lookup.induct)
  case (1 n)
  then show ?case
    by (cases n) (auto simp: isdir_def split: option.splits node.splits)
next
  case (2 old y p)
  then show ?case by (simp add: isdir_def)
next
  case (3 es y p)
  then show ?case
    by (cases "map_of es y") (auto simp: isdir_def split: option.splits)
qed

lemma del_lookup_same: "del t p = Some t' \<Longrightarrow> lookup t' p = None"
  by (induction t p arbitrary: t' rule: del.induct)
    (auto simp: update_conv' delete_conv' split: option.splits node.splits)

lemma del_lookup_other:
  "del t p = Some t' \<Longrightarrow> \<not> prefix q p \<Longrightarrow> lookup t' q = lookup t q"
proof (induction t p arbitrary: t' q rule: del.induct)
  case (3 es x)
  from "3.prems"(2) obtain y q' where q: "q = y # q'" by (cases q) auto
  from "3.prems"(1) obtain old where f: "map_of es x = Some (File old)" and t': "t' = Dir (AList.delete x es)"
    by (auto split: option.splits node.splits)
  show ?case
  proof (cases "y = x")
    case True
    with "3.prems"(2) q obtain z q'' where "q' = z # q''" by (cases q') auto
    then show ?thesis by (simp add: q t' True delete_conv' f)
  next
    case False
    then show ?thesis by (simp add: q t' delete_conv')
  qed
next
  case (4 es x y p)
  from "4.prems"(2) obtain z q' where q: "q = z # q'" by (cases q) auto
  from "4.prems"(1) obtain ch ch' where ch: "map_of es x = Some ch" and ch': "del ch (y # p) = Some ch'"
    and t': "t' = Dir (AList.update x ch' es)"
    by (auto split: option.splits)
  show ?case
  proof (cases "z = x")
    case True
    with "4.prems"(2) q have "\<not> prefix q' (y # p)" by simp
    from "4.IH" [OF ch ch' this] show ?thesis
      by (simp add: q t' True update_conv' ch)
  next
    case False
    then show ?thesis by (simp add: q t' update_conv')
  qed
qed auto

lemma del_lookup_prefix:
  "del t p = Some t' \<Longrightarrow> strict_prefix q p
     \<Longrightarrow> (\<exists>es. lookup t q = Some (Dir es)) \<and> (\<exists>es. lookup t' q = Some (Dir es))"
proof (induction t p arbitrary: t' q rule: del.induct)
  case (3 es x)
  then show ?case by (cases q) (auto split: option.splits node.splits)
next
  case (4 es x y p)
  from "4.prems"(1) obtain ch ch' where ch: "map_of es x = Some ch" and ch': "del ch (y # p) = Some ch'"
    and t': "t' = Dir (AList.update x ch' es)"
    by (auto split: option.splits)
  show ?case
  proof (cases q)
    case Nil
    then show ?thesis by (simp add: t')
  next
    case (Cons z q')
    with "4.prems"(2) have z: "z = x" and sp: "strict_prefix q' (y # p)" by auto
    from "4.IH" [OF ch ch' sp] show ?thesis
      by (simp add: Cons z t' update_conv' ch)
  qed
qed auto

lemma del_file_text:
  assumes "del t p = Some t'"
  shows "file_text t' q = (if q = p then None else file_text t q)"
proof (cases "q = p")
  case True
  with del_lookup_same [OF assms] show ?thesis by (simp add: file_text_def)
next
  case False
  show ?thesis
  proof (cases "prefix q p")
    case True
    with False have "strict_prefix q p" by (simp add: strict_prefix_def)
    from del_lookup_prefix [OF assms this] False show ?thesis by (auto simp: file_text_def)
  next
    case np: False
    from del_lookup_other [OF assms np] False show ?thesis by (simp add: file_text_def)
  qed
qed

lemma del_succeeds:
  "file_text t p = Some c \<Longrightarrow> p \<noteq> [] \<Longrightarrow> \<exists>t'. del t p = Some t'"
proof (induction t p rule: del.induct)
  case (3 es x)
  then show ?case by (auto simp: file_text_def split: option.splits node.splits)
next
  case (4 es x y p)
  then show ?case by (auto simp: file_text_def split: option.splits node.splits)
qed (auto simp: file_text_def)

lemma file_text_isdir_parent:
  "file_text t (d @ [x]) = Some c \<Longrightarrow> isdir t d"
  by (auto simp: file_text_def isdir_def lookup_append split: option.splits node.splits)

section \<open>One row\<close>

lemma tree_logging [simp]: "tree (logging lv msg w) = tree w"
  by (simp add: logging_def)

lemma log_logging [simp]: "log (logging lv msg w) = log w @ [(lv, msg)]"
  by (simp add: logging_def)

lemma process_role_cells:
  assumes "row ''Original Role Name'' = Some (Some original)"
    and "row ''New Role Name'' = Some (Some new)"
    and "format_file_name (strip original) = Inr old_file_name"
    and "format_file_name (strip new) = Inr new_file_name"
  shows "process_role env row bundle_folder disabled_folder w =
     (case find_file_recursive (tree w) bundle_folder old_file_name of
        None \<Rightarrow>
          Inr (Some (strip original),
               logging WARNING (FileNotFound old_file_name)
                 (logging INFO (SearchingForFile old_file_name) w))
      | Some old_file_path \<Rightarrow>
          (case role_try env old_file_path (butlast old_file_path @ [new_file_name])
                  disabled_folder old_file_name (escape_special_characters (strip new))
                  (logging INFO (FoundFileAt old_file_path)
                     (logging INFO (SearchingForFile old_file_name) w)) of
             Inl (e, w2) \<Rightarrow>
               Inr (Some (strip original),
                    logging ERROR (UnexpectedErrorProcessing old_file_name e) w2)
           | Inr w2 \<Rightarrow> Inr (None, w2)))"
  using assms
  by (simp add: process_role_def getitem_def strip_cell_def Let_def split: option.splits)

lemma role_try_disabled_write_fails:
  assumes "open_read env (tree w) old_file_path = Inr content"
    and "rewrite_identity content new_role_escaped = Inr content_new"
    and "open_write env (tree w) new_file_path content_new = Inr t1"
    and "open_write env t1 (disabled_folder @ [old_file_name]) (insert_disabled content) = Inl e"
  shows "role_try env old_file_path new_file_path disabled_folder old_file_name new_role_escaped w
           = Inl (e, logging INFO (NewFileCreated new_file_path) (w\<lparr>tree := t1\<rparr>))"
  using assms by (simp add: role_try_def mark_disabled_eq Let_def)

lemma universal_newlines_plain: "CHR 0x0D \<notin> set s \<Longrightarrow> universal_newlines s = s"
  by (induction s rule: universal_newlines.induct) auto

lemma admin_text_lines: "universal_newlines admin_text = admin_text"
  by (rule universal_newlines_plain) (simp add: admin_text_def)

lemma open_read_file_text: "open_read env t p = Inr c \<Longrightarrow> \<exists>c'. file_text t p = Some c'"
  by (auto simp: open_read_def split: if_splits option.splits)

lemma open_write_put: "open_write env t p c = Inr t' \<Longrightarrow> put t p c = Some t'"
  by (auto simp: open_write_def split: if_splits option.splits)

lemma os_remove_del: "os_remove env t p = Inr t' \<Longrightarrow> del t p = Some t'"
  by (auto simp: os_remove_def split: if_splits option.splits)

lemma file_text_exists: "file_text t p = Some c \<Longrightarrow> exists t p"
  by (auto simp: file_text_def exists_def split: option.splits)

lemma role_try_removal_fails:
  assumes "open_read env (tree w) old_file_path = Inr content"
    and "rewrite_identity content new_role_escaped = Inr content_new"
    and "open_write env (tree w) new_file_path content_new = Inr t1"
    and "open_write env t1 (disabled_folder @ [old_file_name]) (insert_disabled content) = Inr t2"
    and "os_remove env t2 old_file_path = Inl e"
  shows "role_try env old_file_path new_file_path disabled_folder old_file_name new_role_escaped w
           = Inl (e, logging INFO (DisabledAndMoved (disabled_folder @ [old_file_name]))
                       (logging INFO (NewFileCreated new_file_path) (w\<lparr>tree := t2\<rparr>)))"
proof -
  from assms(1) have "\<exists>c. file_text (tree w) old_file_path = Some c"
    by (rule open_read_file_text)
  then have "\<exists>c. file_text t1 old_file_path = Some c"
    by (auto simp: put_file_text [OF open_write_put [OF assms(3)]])
  then have "\<exists>c. file_text t2 old_file_path = Some c"
    by (auto simp: put_file_text [OF open_write_put [OF assms(4)]])
  then have "exists t2 old_file_path" by (auto intro: file_text_exists)
  with assms show ?thesis
    by (simp add: role_try_def mark_disabled_eq Let_def logging_def)
qed

lemma admin_row_cells:
  "admin_row ''Original Role Name'' = Some (Some ''Admin'')"
  "admin_row ''New Role Name'' = Some (Some ''SuperAdmin'')"
  by (simp_all add: admin_row_def dict_row_def)

lemma admin_names:
  "format_file_name (strip ''Admin'') = Inr ''NAB_Bundle_Admin.xml''"
  "format_file_name (strip ''SuperAdmin'') = Inr ''NAB_Bundle_SuperAdmin.xml''"
  by code_simp+

lemma admin_found:
  "find_file_recursive fixture_tree [''bundle''] ''NAB_Bundle_Admin.xml''
     = Some [''bundle'', ''roles'', ''NAB_Bundle_Admin.xml'']"
  by code_simp

lemma admin_rewritten:
  \<open>rewrite_identity admin_text (escape_special_characters (strip ''SuperAdmin''))
     = Inr ''<Bundle displayName="SuperAdmin" name="SuperAdmin">''\<close>
  by code_simp

lemma admin_disabled:
  \<open>mark_disabled admin_text = Inr ''<Bundle disabled="true" displayName="Admin" name="Admin">''\<close>
  by code_simp

text \<open>
  The two failures after the renamed file is written. The \<open>except\<close> branch logs the
  error and returns the original role name; the tree is the one that the last successful
  write left.
\<close>

lemma process_role_archive_write_fails:
  assumes "row ''Original Role Name'' = Some (Some original)"
    and "row ''New Role Name'' = Some (Some new)"
    and "format_file_name (strip original) = Inr old_file_name"
    and "format_file_name (strip new) = Inr new_file_name"
    and "find_file_recursive (tree w) bundle_folder old_file_name = Some old_file_path"
    and "open_read env (tree w) old_file_path = Inr content"
    and "rewrite_identity content (escape_special_characters (strip new)) = Inr content_new"
    and "open_write env (tree w) (butlast old_file_path @ [new_file_name]) content_new = Inr t1"
    and "mark_disabled content = Inr content_disabled"
    and "open_write env t1 (disabled_folder @ [old_file_name]) content_disabled = Inl e"
  shows "process_role env row bundle_folder disabled_folder w
        = Inr (Some (strip original),
               logging ERROR (UnexpectedErrorProcessing old_file_name e)
                 (logging INFO (NewFileCreated (butlast old_file_path @ [new_file_name]))
                    ((logging INFO (FoundFileAt old_file_path)
                        (logging INFO (SearchingForFile old_file_name) w))\<lparr>tree := t1\<rparr>)))"
proof -
  from assms(9) have cd: "content_disabled = insert_disabled content"
    by (simp add: mark_disabled_eq)
  have "role_try env old_file_path (butlast old_file_path @ [new_file_name]) disabled_folder
          old_file_name (escape_special_characters (strip new))
          (logging INFO (FoundFileAt old_file_path) (logging INFO (SearchingForFile old_file_name) w))
        = Inl (e, logging INFO (NewFileCreated (butlast old_file_path @ [new_file_name]))
                    ((logging INFO (FoundFileAt old_file_path)
                        (logging INFO (SearchingForFile old_file_name) w))\<lparr>tree := t1\<rparr>))"
    using assms(6,7,8,10) by (intro role_try_disabled_write_fails) (simp_all add: cd)
  then show ?thesis
    by (simp add: process_role_cells [OF assms(1-4)] assms(5))
qed

lemma process_role_removal_fails:
  assumes "row ''Original Role Name'' = Some (Some original)"
    and "row ''New Role Name'' = Some (Some new)"
    and "format_file_name (strip original) = Inr old_file_name"
    and "format_file_name (strip new) = Inr new_file_name"
    and "find_file_recursive (tree w) bundle_folder old_file_name = Some old_file_path"
    and "open_read env (tree w) old_file_path = Inr content"
    and "rewrite_identity content (escape_special_characters (strip new)) = Inr content_new"
    and "open_write env (tree w) (butlast old_file_path @ [new_file_name]) content_new = Inr t1"
    and "mark_disabled content = Inr content_disabled"
    and "open_write env t1 (disabled_folder @ [old_file_name]) content_disabled = Inr t2"
    and "os_remove env t2 old_file_path = Inl e"
  shows "process_role env row bundle_folder disabled_folder w
        = Inr (Some (strip original),
               logging ERROR (UnexpectedErrorProcessing old_file_name e)
                 (logging INFO (DisabledAndMoved (disabled_folder @ [old_file_name]))
                    (logging INFO (NewFileCreated (butlast old_file_path @ [new_file_name]))
                       ((logging INFO (FoundFileAt old_file_path)
                           (logging INFO (SearchingForFile old_file_name) w))\<lparr>tree := t2\<rparr>))))"
proof -
  from assms(9) have cd: "content_disabled = insert_disabled content"
    by (simp add: mark_disabled_eq)
  have "role_try env old_file_path (butlast old_file_path @ [new_file_name]) disabled_folder
          old_file_name (escape_special_characters (strip new))
          (logging INFO (FoundFileAt old_file_path) (logging INFO (SearchingForFile old_file_name) w))
        = Inl (e, logging INFO (DisabledAndMoved (disabled_folder @ [old_file_name]))
                    (logging INFO (NewFileCreated (butlast old_file_path @ [new_file_name]))
                       ((logging INFO (FoundFileAt old_file_path)
                           (logging INFO (SearchingForFile old_file_name) w))\<lparr>tree := t2\<rparr>)))"
    using assms(6,7,8,10,11) by (intro role_try_removal_fails) (simp_all add: cd)
  then show ?thesis
    by (simp add: process_role_cells [OF assms(1-4)] assms(5))
qed

lemma role_try_succeeds:
  assumes "open_read env (tree w) old_file_path = Inr content"
    and "rewrite_identity content new_role_escaped = Inr content_new"
    and "open_write env (tree w) new_file_path content_new = Inr t1"
    and "open_write env t1 (disabled_folder @ [old_file_name]) (insert_disabled content) = Inr t2"
    and "os_remove env t2 old_file_path = Inr t3"
  shows "role_try env old_file_path new_file_path disabled_folder old_file_name new_role_escaped w
           = Inr (logging INFO (OriginalFileRemoved old_file_path)
                   (logging INFO (DisabledAndMoved (disabled_folder @ [old_file_name]))
                      (logging INFO (NewFileCreated new_file_path) (w\<lparr>tree := t3\<rparr>))))"
proof -
  from assms(1) have "\<exists>c. file_text (tree w) old_file_path = Some c"
    by (rule open_read_file_text)
  then have "\<exists>c. file_text t1 old_file_path = Some c"
    by (auto simp: put_file_text [OF open_write_put [OF assms(3)]])
  then have "\<exists>c. file_text t2 old_file_path = Some c"
    by (auto simp: put_file_text [OF open_write_put [OF assms(4)]])
  then have "exists t2 old_file_path" by (auto intro: file_text_exists)
  with assms show ?thesis
    by (simp add: role_try_def mark_disabled_eq Let_def logging_def)
qed

lemma admin_names_plain:
  "format_file_name ''Admin'' = Inr ''NAB_Bundle_Admin.xml''"
  "format_file_name ''SuperAdmin'' = Inr ''NAB_Bundle_SuperAdmin.xml''"
  by code_simp+

lemma admin_rewritten_plain:
  "rewrite_identity admin_text (escape_special_characters ''SuperAdmin'') = Inr renamed_text"
  by code_simp

lemma admin_disabled_plain: "insert_disabled admin_text = disabled_text"
  using mark_disabled_eq [of admin_text] admin_disabled by (simp add: disabled_text_def)

text \<open>
  Claim C1, as the code has it. The row is (\<open>Admin\<close>, \<open>SuperAdmin\<close>), the file
  \<open>NAB_Bundle_Admin.xml\<close> that the search finds lies in the directory \<open>d\<close> and holds
  \<open><Bundle displayName="Admin" name="Admin">\<close>, the archive directory exists and is not
  \<open>d\<close> itself, and the environment refuses none of the four file operations. Then the row
  succeeds, \<open>NAB_Bundle_SuperAdmin.xml\<close> in \<open>d\<close> holds both attributes with the value
  \<open>SuperAdmin\<close>, the original is gone from \<open>d\<close>, and the archive holds the original text
  with \<open>disabled="true"\<close> after the root element token and the old identity.
\<close>

theorem process_role_renames_and_archives:
  assumes "row ''Original Role Name'' = Some (Some original)"
    and "row ''New Role Name'' = Some (Some new)"
    and "strip original = ''Admin''"
    and "strip new = ''SuperAdmin''"
    and "find_file_recursive (tree w) bundle_folder ''NAB_Bundle_Admin.xml''
           = Some (d @ [''NAB_Bundle_Admin.xml''])"
    and "file_text (tree w) (d @ [''NAB_Bundle_Admin.xml'']) = Some admin_text"
    and "d \<noteq> disabled_folder"
    and "isdir (tree w) disabled_folder"
    and "\<not> isdir (tree w) (d @ [''NAB_Bundle_SuperAdmin.xml''])"
    and "\<not> isdir (tree w) (disabled_folder @ [''NAB_Bundle_Admin.xml''])"
    and "\<not> deny_read env (d @ [''NAB_Bundle_Admin.xml''])"
    and "\<not> deny_write env (d @ [''NAB_Bundle_SuperAdmin.xml''])"
    and "\<not> deny_write env (disabled_folder @ [''NAB_Bundle_Admin.xml''])"
    and "\<not> deny_remove env (d @ [''NAB_Bundle_Admin.xml''])"
  shows "\<exists>w'. process_role env row bundle_folder disabled_folder w = Inr (None, w')
           \<and> file_text (tree w') (d @ [''NAB_Bundle_SuperAdmin.xml'']) = Some renamed_text
           \<and> \<not> exists (tree w') (d @ [''NAB_Bundle_Admin.xml''])
           \<and> file_text (tree w') (disabled_folder @ [''NAB_Bundle_Admin.xml'']) = Some disabled_text"
proof -
  let ?old = "d @ [''NAB_Bundle_Admin.xml'']"
  let ?new = "d @ [''NAB_Bundle_SuperAdmin.xml'']"
  let ?arc = "disabled_folder @ [''NAB_Bundle_Admin.xml'']"
  let ?t = "tree w"
  have rd: "open_read env ?t ?old = Inr admin_text"
    using assms(6,11) by (simp add: open_read_def admin_text_lines)
  have "isdir ?t d" using assms(6) by (rule file_text_isdir_parent)
  from put_succeeds [OF this assms(9)]
  obtain t1 where p1: "put ?t ?new renamed_text = Some t1" by blast
  then have w1: "open_write env ?t ?new renamed_text = Inr t1"
    using assms(12) by (simp add: open_write_def)
  have "disabled_folder \<noteq> ?new" using assms(8,9) by auto
  then have d1: "isdir t1 disabled_folder" using assms(8) by (simp add: put_isdir [OF p1])
  have "\<not> isdir t1 ?arc" using assms(10) by (simp add: put_isdir [OF p1])
  from put_succeeds [OF d1 this]
  obtain t2 where p2: "put t1 ?arc disabled_text = Some t2" by blast
  then have w2: "open_write env t1 ?arc (insert_disabled admin_text) = Inr t2"
    using assms(13) by (simp add: open_write_def admin_disabled_plain)
  have "file_text t1 ?old = Some admin_text"
    using assms(6) by (simp add: put_file_text [OF p1])
  then have "file_text t2 ?old = Some admin_text"
    using assms(7) by (simp add: put_file_text [OF p2])
  from del_succeeds [OF this]
  obtain t3 where p3: "del t2 ?old = Some t3" by auto
  then have rm: "os_remove env t2 ?old = Inr t3"
    using assms(14) by (simp add: os_remove_def)
  have "role_try env ?old ?new disabled_folder ''NAB_Bundle_Admin.xml''
          (escape_special_characters ''SuperAdmin'')
          (logging INFO (FoundFileAt ?old) (logging INFO (SearchingForFile ''NAB_Bundle_Admin.xml'') w))
        = Inr (logging INFO (OriginalFileRemoved ?old)
                (logging INFO (DisabledAndMoved ?arc)
                   (logging INFO (NewFileCreated ?new)
                      ((logging INFO (FoundFileAt ?old)
                          (logging INFO (SearchingForFile ''NAB_Bundle_Admin.xml'') w))\<lparr>tree := t3\<rparr>))))"
    using rd admin_rewritten_plain w1 w2 rm by (intro role_try_succeeds) simp_all
  then have r: "process_role env row bundle_folder disabled_folder w
        = Inr (None, logging INFO (OriginalFileRemoved ?old)
                (logging INFO (DisabledAndMoved ?arc)
                   (logging INFO (NewFileCreated ?new)
                      ((logging INFO (FoundFileAt ?old)
                          (logging INFO (SearchingForFile ''NAB_Bundle_Admin.xml'') w))\<lparr>tree := t3\<rparr>))))"
    using admin_names_plain
    by (simp add: process_role_cells [OF assms(1,2)] assms(3,4,5))
  have a: "file_text t3 ?new = Some renamed_text"
    by (simp add: del_file_text [OF p3] put_file_text [OF p2] put_file_text [OF p1])
  have b: "\<not> exists t3 ?old"
    by (simp add: exists_def del_lookup_same [OF p3])
  have c: "file_text t3 ?arc = Some disabled_text"
    using assms(7) by (simp add: del_file_text [OF p3] put_file_text [OF p2])
  from r a b c show ?thesis by simp
qed

theorem process_role_renames_and_archives_witness:
  "\<exists>w'. process_role permissive admin_row [''bundle''] [''bundle'', ''00_Disabled'']
            \<lparr>tree = fixture_tree, log = []\<rparr> = Inr (None, w')
         \<and> file_text (tree w') [''bundle'', ''roles'', ''NAB_Bundle_SuperAdmin.xml''] = Some renamed_text
         \<and> \<not> exists (tree w') [''bundle'', ''roles'', ''NAB_Bundle_Admin.xml'']
         \<and> file_text (tree w') [''bundle'', ''00_Disabled'', ''NAB_Bundle_Admin.xml''] = Some disabled_text"
proof -
  have s: "strip ''Admin'' = ''Admin''" "strip ''SuperAdmin'' = ''SuperAdmin''"
    by (simp_all add: strip_def isspace_def)
  have found: "find_file_recursive (tree \<lparr>tree = fixture_tree, log = []\<rparr>) [''bundle'']
                 ''NAB_Bundle_Admin.xml'' = Some ([''bundle'', ''roles''] @ [''NAB_Bundle_Admin.xml''])"
    by (simp add: admin_found)
  have ft: "file_text (tree \<lparr>tree = fixture_tree, log = []\<rparr>)
               ([''bundle'', ''roles''] @ [''NAB_Bundle_Admin.xml'']) = Some admin_text"
    by (simp add: fixture_tree_def file_text_def)
  have apart: "[''bundle'', ''roles''] \<noteq> [''bundle'', ''00_Disabled'']" by simp
  have dirs: "isdir (tree \<lparr>tree = fixture_tree, log = []\<rparr>) [''bundle'', ''00_Disabled'']"
    "\<not> isdir (tree \<lparr>tree = fixture_tree, log = []\<rparr>) ([''bundle'', ''roles''] @ [''NAB_Bundle_SuperAdmin.xml''])"
    "\<not> isdir (tree \<lparr>tree = fixture_tree, log = []\<rparr>) ([''bundle'', ''00_Disabled''] @ [''NAB_Bundle_Admin.xml''])"
    by (simp_all add: fixture_tree_def isdir_def)
  have perms: "\<not> deny_read permissive ([''bundle'', ''roles''] @ [''NAB_Bundle_Admin.xml''])"
    "\<not> deny_write permissive ([''bundle'', ''roles''] @ [''NAB_Bundle_SuperAdmin.xml''])"
    "\<not> deny_write permissive ([''bundle'', ''00_Disabled''] @ [''NAB_Bundle_Admin.xml''])"
    "\<not> deny_remove permissive ([''bundle'', ''roles''] @ [''NAB_Bundle_Admin.xml''])"
    by (simp_all add: permissive_def)
  from process_role_renames_and_archives [OF admin_row_cells s found ft apart dirs perms]
  show ?thesis by simp
qed

text \<open>
  The claim as stated fails when the subdirectory is the archive directory, which the
  search walks like any other: the disabled copy is written over the original and then
  removed with it.
\<close>

theorem process_role_in_archive_counterexample:
  "isdir archived_tree [''bundle'', ''00_Disabled'']
   \<and> file_text archived_tree [''bundle'', ''00_Disabled'', ''NAB_Bundle_Admin.xml''] = Some admin_text
   \<and> process_role permissive admin_row [''bundle''] [''bundle'', ''00_Disabled'']
        \<lparr>tree = archived_tree, log = []\<rparr>
      = Inr (None,
          \<lparr>tree = Dir [(''bundle'',
                    Dir [(''00_Disabled'', Dir [(''NAB_Bundle_SuperAdmin.xml'', File renamed_text)])])],
           log = [(INFO, SearchingForFile ''NAB_Bundle_Admin.xml''),
                  (INFO, FoundFileAt [''bundle'', ''00_Disabled'', ''NAB_Bundle_Admin.xml'']),
                  (INFO, NewFileCreated [''bundle'', ''00_Disabled'', ''NAB_Bundle_SuperAdmin.xml'']),
                  (INFO, DisabledAndMoved [''bundle'', ''00_Disabled'', ''NAB_Bundle_Admin.xml'']),
                  (INFO, OriginalFileRemoved [''bundle'', ''00_Disabled'', ''NAB_Bundle_Admin.xml''])]\<rparr>)
   \<and> \<not> exists (Dir [(''bundle'',
                    Dir [(''00_Disabled'', Dir [(''NAB_Bundle_SuperAdmin.xml'', File renamed_text)])])])
         [''bundle'', ''00_Disabled'', ''NAB_Bundle_Admin.xml'']"
  by code_simp

text \<open>
  What holds of claims C10 and C6 for one row: with a name that the template parser reads
  as itself, a file without the attribute pair is copied as it is and the row succeeds;
  and a row whose file is not found changes nothing in the tree and returns the role name.
\<close>

lemma process_role_no_match_succeeds:
  assumes "row ''Original Role Name'' = Some (Some original)"
    and "row ''New Role Name'' = Some (Some new)"
    and "format_file_name (strip original) = Inr old_file_name"
    and "format_file_name (strip new) = Inr new_file_name"
    and "find_file_recursive (tree w) bundle_folder old_file_name = Some old_file_path"
    and "open_read env (tree w) old_file_path = Inr content"
    and "no_pair content"
    and "plain_name (escape_special_characters (strip new))"
    and "open_write env (tree w) (butlast old_file_path @ [new_file_name]) content = Inr t1"
    and "open_write env t1 (disabled_folder @ [old_file_name]) (insert_disabled content) = Inr t2"
    and "os_remove env t2 old_file_path = Inr t3"
  shows "\<exists>w'. process_role env row bundle_folder disabled_folder w = Inr (None, w') \<and> tree w' = t3"
proof -
  have rw: "rewrite_identity content (escape_special_characters (strip new)) = Inr content"
    by (simp add: rewrite_identity_plain [OF assms(8)] rewrite_pairs_no_pair [OF assms(7)])
  have "role_try env old_file_path (butlast old_file_path @ [new_file_name]) disabled_folder
          old_file_name (escape_special_characters (strip new))
          (logging INFO (FoundFileAt old_file_path) (logging INFO (SearchingForFile old_file_name) w))
        = Inr (logging INFO (OriginalFileRemoved old_file_path)
                (logging INFO (DisabledAndMoved (disabled_folder @ [old_file_name]))
                   (logging INFO (NewFileCreated (butlast old_file_path @ [new_file_name]))
                      ((logging INFO (FoundFileAt old_file_path)
                          (logging INFO (SearchingForFile old_file_name) w))\<lparr>tree := t3\<rparr>))))"
    using assms(6) rw assms(9,10,11) by (intro role_try_succeeds) simp_all
  then show ?thesis
    by (simp add: process_role_cells [OF assms(1-4)] assms(5))
qed

lemma process_role_not_found:
  assumes "row ''Original Role Name'' = Some (Some original)"
    and "row ''New Role Name'' = Some (Some new)"
    and "format_file_name (strip original) = Inr old_file_name"
    and "find_file_recursive (tree w) bundle_folder old_file_name = None"
  shows "process_role env row bundle_folder disabled_folder w
           = Inr (Some (strip original),
                  logging WARNING (FileNotFound old_file_name)
                    (logging INFO (SearchingForFile old_file_name) w))"
  using assms format_file_name_eq [of "strip new"]
  by (simp add: process_role_cells [OF assms(1,2,3)])

section \<open>The batch\<close>

lemma dict_row_missing: "c \<notin> set names \<Longrightarrow> dict_row names line c = None"
  by (auto simp: dict_row_def map_of_eq_None_iff dest: set_zip_leftD)

lemma reader_rows_data_lines:
  "(reader_rows records = []) = (data_lines records = [])"
  by (cases records) (simp_all add: reader_rows_def data_lines_def)

lemma rows_loop_missing_column:
  assumes "lacks_required_column records" and "reader_rows records \<noteq> []"
  shows "rows_loop env (reader_rows records) bundle_folder disabled_folder nf w
           = (Returned, logging ERROR CsvFormatError w)"
proof -
  from assms(2) obtain header rest where r: "records = header # rest"
    by (cases records) (auto simp: reader_rows_def)
  with assms(2) obtain line lines where l: "filter (\<lambda>line. line \<noteq> []) rest = line # lines"
    by (cases "filter (\<lambda>line. line \<noteq> []) rest") (auto simp: reader_rows_def)
  from assms(1) r have "''Original Role Name'' \<notin> set header \<or> ''New Role Name'' \<notin> set header"
    by (simp add: lacks_required_column_def)
  then have "dict_row header line ''Original Role Name'' = None
               \<or> dict_row header line ''New Role Name'' = None"
    by (auto simp: dict_row_missing)
  then show ?thesis by (auto simp add: reader_rows_def r l)
qed

text \<open>
  Claim C5, as the code has it. When the header misses a required column (or the file
  has no header at all), no row is processed and the tree is unchanged: no renamed file,
  no disabled copy, no report. The check stands inside the loop over the rows, so the
  format error is logged when there is a data line; with none the run logs that it
  completed.
\<close>

theorem missing_column_aborts:
  assumes "lacks_required_column records"
  shows "tree (process_files env (Some records) bundle_folder disabled_folder w) = tree w
       \<and> log (process_files env (Some records) bundle_folder disabled_folder w)
           = log w @ [(INFO, CsvHeaders (fieldnames records)),
                      (if data_lines records = [] then (INFO, ProcessCompleted)
                       else (ERROR, CsvFormatError))]"
proof (cases "reader_rows records = []")
  case True
  then have "data_lines records = []" by (simp add: reader_rows_data_lines)
  with True show ?thesis by (simp add: process_files_def)
next
  case False
  then have "data_lines records \<noteq> []" by (simp add: reader_rows_data_lines)
  with rows_loop_missing_column [OF assms False] show ?thesis
    by (simp add: process_files_def)
qed

theorem missing_column_aborts_witness:
  "tree (process_files permissive (Some [[''Original Role Name''], [''Admin'']])
           [''bundle''] [''bundle'', ''00_Disabled''] \<lparr>tree = fixture_tree, log = []\<rparr>) = fixture_tree
   \<and> log (process_files permissive (Some [[''Original Role Name''], [''Admin'']])
           [''bundle''] [''bundle'', ''00_Disabled''] \<lparr>tree = fixture_tree, log = []\<rparr>)
       = [(INFO, CsvHeaders (Some [''Original Role Name''])), (ERROR, CsvFormatError)]"
proof -
  have "lacks_required_column [[''Original Role Name''], [''Admin'']]"
    by (simp add: lacks_required_column_def)
  from missing_column_aborts [OF this, of permissive "[''bundle'']" "[''bundle'', ''00_Disabled'']"
      "\<lparr>tree = fixture_tree, log = []\<rparr>"]
  show ?thesis by (simp add: fieldnames_def data_lines_def)
qed

text \<open>
  The claim as stated fails for a mapping file that misses a column and has no data
  line: nothing is reported as an error.
\<close>

theorem missing_column_no_rows_counterexample:
  "lacks_required_column [[''Original Role Name'']]
   \<and> process_files permissive (Some [[''Original Role Name'']])
        [''bundle''] [''bundle'', ''00_Disabled''] \<lparr>tree = fixture_tree, log = []\<rparr>
      = \<lparr>tree = fixture_tree,
         log = [(INFO, CsvHeaders (Some [''Original Role Name''])), (INFO, ProcessCompleted)]\<rparr>"
  by (simp add: lacks_required_column_def process_files_def reader_rows_def fieldnames_def logging_def)

text \<open>
  Claim C6 fails on the code. A row whose original name is empty after \<open>strip\<close> has no
  artifact (\<open>NAB_Bundle_.xml\<close> is not found), \<open>process_role\<close> returns the empty name, and
  \<open>if not_found_role:\<close> takes the empty string for \<open>None\<close>: the name is not recorded
  and no report is written.
\<close>

theorem empty_original_name_not_reported:
  "process_files permissive
     (Some [[''Original Role Name'', ''New Role Name''], ['''', ''SuperAdmin'']])
     [''bundle''] [''bundle'', ''00_Disabled''] \<lparr>tree = fixture_tree, log = []\<rparr>
   = \<lparr>tree = fixture_tree,
      log = [(INFO, CsvHeaders (Some [''Original Role Name'', ''New Role Name''])),
             (INFO, SearchingForFile ''NAB_Bundle_.xml''),
             (WARNING, FileNotFound ''NAB_Bundle_.xml''),
             (INFO, ProcessCompleted)]\<rparr>
   \<and> find_file_recursive fixture_tree [''bundle''] ''NAB_Bundle_.xml'' = None
   \<and> \<not> exists fixture_tree [''bundle'', ''not_found_roles.txt'']"
  by code_simp

text \<open>
  Claim C10 fails on the code. The file is found and its content has no
  \<open>displayName\<close>/\<open>name\<close> pair, but the new name \<open>1A\<close> makes the replacement string a
  template that \<open>re.sub\<close> rejects before it searches (the defect of claim C2): the row
  is an error and no file is written.
\<close>

theorem no_match_digit_name_is_error:
  \<open>process_role permissive
      (dict_row [''Original Role Name'', ''New Role Name''] [''Admin'', ''1A''])
      [''bundle''] [''bundle'', ''00_Disabled''] \<lparr>tree = plain_tree, log = []\<rparr>
    = Inr (Some ''Admin'',
        \<lparr>tree = plain_tree,
         log = [(INFO, SearchingForFile ''NAB_Bundle_Admin.xml''),
                (INFO, FoundFileAt [''bundle'', ''roles'', ''NAB_Bundle_Admin.xml'']),
                (ERROR, UnexpectedErrorProcessing ''NAB_Bundle_Admin.xml'' TemplateError)]\<rparr>)\<close>
  by code_simp

text \<open>
  What holds of claim C6: a row with a non-empty name whose file is not found leaves the
  tree as it is, its name joins the unresolved list, and the loop goes on with the next
  row. In the example the first role is missing and the second is renamed; the report
  holds the first name only.
\<close>

lemma rows_loop_not_found:
  assumes "row ''Original Role Name'' = Some (Some original)"
    and "row ''New Role Name'' = Some (Some new)"
    and "format_file_name (strip original) = Inr old_file_name"
    and "find_file_recursive (tree w) bundle_folder old_file_name = None"
    and "strip original \<noteq> []"
  shows "rows_loop env (row # rows) bundle_folder disabled_folder not_found_roles w
           = rows_loop env rows bundle_folder disabled_folder (not_found_roles @ [strip original])
               (logging WARNING (FileNotFound old_file_name)
                  (logging INFO (SearchingForFile old_file_name) w))"
  using assms(1,2,5)
  by (simp add: process_role_not_found [OF assms(1-4)] truthy_def)

lemma batch_isolation_example:
  "process_files permissive
     (Some [[''Original Role Name'', ''New Role Name''], [''Ghost'', ''Spirit''],
            [''Admin'', ''SuperAdmin'']])
     [''bundle''] [''bundle'', ''00_Disabled''] \<lparr>tree = fixture_tree, log = []\<rparr>
   = \<lparr>tree = Dir [(''bundle'',
              Dir [(''00_Disabled'', Dir [(''NAB_Bundle_Admin.xml'', File disabled_text)]),
                   (''roles'', Dir [(''NAB_Bundle_SuperAdmin.xml'', File renamed_text)]),
                   (''not_found_roles.txt'', File (''Ghost'' @ [CHR 0x0A]))])],
      log = [(INFO, CsvHeaders (Some [''Original Role Name'', ''New Role Name''])),
             (INFO, SearchingForFile ''NAB_Bundle_Ghost.xml''),
             (WARNING, FileNotFound ''NAB_Bundle_Ghost.xml''),
             (INFO, SearchingForFile ''NAB_Bundle_Admin.xml''),
             (INFO, FoundFileAt [''bundle'', ''roles'', ''NAB_Bundle_Admin.xml'']),
             (INFO, NewFileCreated [''bundle'', ''roles'', ''NAB_Bundle_SuperAdmin.xml'']),
             (INFO, DisabledAndMoved [''bundle'', ''00_Disabled'', ''NAB_Bundle_Admin.xml'']),
             (INFO, OriginalFileRemoved [''bundle'', ''roles'', ''NAB_Bundle_Admin.xml'']),
             (INFO, RolesNotFoundFileCreated [''bundle'', ''not_found_roles.txt'']),
             (INFO, ProcessCompleted)]\<rparr>"
  by code_simp

section \<open>A row that fails after the renamed file is written\<close>

text \<open>
  The loop over the rows never drops a name from the unresolved list, and a row that
  returns a name that is not empty adds it.
\<close>

lemma rows_loop_keeps:
  "rows_loop env rows bundle_folder disabled_folder nf w = (Finished roles, w') \<Longrightarrow> prefix nf roles"
proof (induction rows arbitrary: nf w)
  case Nil
  then show ?case by simp
next
  case (Cons row rows)
  show ?case
  proof (cases "row ''Original Role Name'' = None \<or> row ''New Role Name'' = None")
    case True
    with Cons.prems show ?thesis by simp
  next
    case False
    show ?thesis
    proof (cases "process_role env row bundle_folder disabled_folder w")
      case (Inl e)
      with False Cons.prems show ?thesis by auto
    next
      case (Inr p)
      obtain r w1 where p: "p = (r, w1)" by (cases p)
      with False Inr Cons.prems
      have "rows_loop env rows bundle_folder disabled_folder
              (if truthy r then nf @ [the r] else nf) w1 = (Finished roles, w')"
        by auto
      from Cons.IH [OF this] show ?thesis by (auto split: if_splits dest: append_prefixD)
    qed
  qed
qed

lemma rows_loop_append:
  "rows_loop env pre bundle_folder disabled_folder nf w = (Finished nf', w')
   \<Longrightarrow> rows_loop env (pre @ rest) bundle_folder disabled_folder nf w
         = rows_loop env rest bundle_folder disabled_folder nf' w'"
proof (induction pre arbitrary: nf w)
  case Nil
  then show ?case by simp
next
  case (Cons row rows)
  show ?case
  proof (cases "row ''Original Role Name'' = None \<or> row ''New Role Name'' = None")
    case True
    with Cons.prems show ?thesis by simp
  next
    case False
    show ?thesis
    proof (cases "process_role env row bundle_folder disabled_folder w")
      case (Inl e)
      with False Cons.prems show ?thesis by auto
    next
      case (Inr p)
      obtain r w1 where p: "p = (r, w1)" by (cases p)
      with False Inr Cons.prems
      have "rows_loop env rows bundle_folder disabled_folder
              (if truthy r then nf @ [the r] else nf) w1 = (Finished nf', w')"
        by auto
      from Cons.IH [OF this] False Inr p show ?thesis by auto
    qed
  qed
qed

lemma rows_loop_error_row:
  assumes "row ''Original Role Name'' \<noteq> None"
    and "row ''New Role Name'' \<noteq> None"
    and "process_role env row bundle_folder disabled_folder w = Inr (Some name, w')"
    and "name \<noteq> []"
  shows "rows_loop env (row # rows) bundle_folder disabled_folder nf w
           = rows_loop env rows bundle_folder disabled_folder (nf @ [name]) w'"
  using assms by (auto simp: truthy_def)

lemma error_row_reported:
  assumes "reader_rows records = pre @ row # post"
    and "rows_loop env pre bundle_folder disabled_folder []
           (logging INFO (CsvHeaders (fieldnames records)) w0) = (Finished nf, w)"
    and "row ''Original Role Name'' \<noteq> None"
    and "row ''New Role Name'' \<noteq> None"
    and "process_role env row bundle_folder disabled_folder w = Inr (Some name, w')"
    and "name \<noteq> []"
    and "rows_loop env post bundle_folder disabled_folder (nf @ [name]) w' = (Finished roles, w1)"
    and "open_write env (tree w1) (bundle_folder @ [''not_found_roles.txt''])
           (concat (map (\<lambda>role. role @ [CHR 0x0A]) roles)) = Inr t"
  shows "name \<in> set roles
       \<and> process_files env (Some records) bundle_folder disabled_folder w0
           = logging INFO ProcessCompleted
               (logging INFO (RolesNotFoundFileCreated (bundle_folder @ [''not_found_roles.txt'']))
                  (w1\<lparr>tree := t\<rparr>))
       \<and> file_text (tree (process_files env (Some records) bundle_folder disabled_folder w0))
             (bundle_folder @ [''not_found_roles.txt''])
           = Some (concat (map (\<lambda>role. role @ [CHR 0x0A]) roles))"
proof -
  from rows_loop_keeps [OF assms(7)] have "set (nf @ [name]) \<subseteq> set roles"
    by (rule set_mono_prefix)
  then have m: "name \<in> set roles" by simp
  then have ne: "roles \<noteq> []" by auto
  have "rows_loop env (reader_rows records) bundle_folder disabled_folder []
          (logging INFO (CsvHeaders (fieldnames records)) w0)
        = rows_loop env (row # post) bundle_folder disabled_folder nf w"
    by (simp only: assms(1) rows_loop_append [OF assms(2)])
  also have "\<dots> = (Finished roles, w1)"
    by (simp only: rows_loop_error_row [OF assms(3,4,5,6)] assms(7))
  finally have l: "rows_loop env (reader_rows records) bundle_folder disabled_folder []
          (logging INFO (CsvHeaders (fieldnames records)) w0) = (Finished roles, w1)" .
  have pf: "process_files env (Some records) bundle_folder disabled_folder w0
           = logging INFO ProcessCompleted
               (logging INFO (RolesNotFoundFileCreated (bundle_folder @ [''not_found_roles.txt'']))
                  (w1\<lparr>tree := t\<rparr>))"
    using ne by (simp add: process_files_def l assms(8) Let_def)
  have "file_text t (bundle_folder @ [''not_found_roles.txt''])
          = Some (concat (map (\<lambda>role. role @ [CHR 0x0A]) roles))"
    by (simp add: put_file_text [OF open_write_put [OF assms(8)]])
  with m pf show ?thesis by simp
qed

lemma error_row_recorded:
  assumes "row ''Original Role Name'' \<noteq> None"
    and "row ''New Role Name'' \<noteq> None"
    and "process_role env row bundle_folder disabled_folder w = Inr (Some name, w')"
    and "name \<noteq> []"
  shows "(\<forall>rows nf. rows_loop env (row # rows) bundle_folder disabled_folder nf w
                      = rows_loop env rows bundle_folder disabled_folder (nf @ [name]) w')
       \<and> (\<forall>records w0 pre post nf roles w1 t.
            reader_rows records = pre @ row # post
            \<longrightarrow> rows_loop env pre bundle_folder disabled_folder []
                  (logging INFO (CsvHeaders (fieldnames records)) w0) = (Finished nf, w)
            \<longrightarrow> rows_loop env post bundle_folder disabled_folder (nf @ [name]) w' = (Finished roles, w1)
            \<longrightarrow> open_write env (tree w1) (bundle_folder @ [''not_found_roles.txt''])
                  (concat (map (\<lambda>role. role @ [CHR 0x0A]) roles)) = Inr t
            \<longrightarrow> name \<in> set roles
                \<and> file_text (tree (process_files env (Some records) bundle_folder disabled_folder w0))
                      (bundle_folder @ [''not_found_roles.txt''])
                    = Some (concat (map (\<lambda>role. role @ [CHR 0x0A]) roles)))"
  using rows_loop_error_row [OF assms] error_row_reported [OF _ _ assms]
  by blast

text \<open>
  What holds of claim C7: when the write of the disabled copy fails, \<open>process_role\<close>
  returns the original role name, the error is logged, and the tree is the one that the
  write of the renamed file left, so that file stays in place with its new text. When the
  name is not empty, it joins the unresolved list and the report lists it, as in the
  example, where the archive directory refuses the write.
\<close>

lemma disabled_copy_failure_is_error:
  assumes "row ''Original Role Name'' = Some (Some original)"
    and "row ''New Role Name'' = Some (Some new)"
    and "format_file_name (strip original) = Inr old_file_name"
    and "format_file_name (strip new) = Inr new_file_name"
    and "find_file_recursive (tree w) bundle_folder old_file_name = Some old_file_path"
    and "open_read env (tree w) old_file_path = Inr content"
    and "rewrite_identity content (escape_special_characters (strip new)) = Inr content_new"
    and "open_write env (tree w) (butlast old_file_path @ [new_file_name]) content_new = Inr t1"
    and "mark_disabled content = Inr content_disabled"
    and "open_write env t1 (disabled_folder @ [old_file_name]) content_disabled = Inl e"
  shows "\<exists>w'. process_role env row bundle_folder disabled_folder w = Inr (Some (strip original), w')
           \<and> tree w' = t1
           \<and> file_text (tree w') (butlast old_file_path @ [new_file_name]) = Some content_new
           \<and> (ERROR, UnexpectedErrorProcessing old_file_name e) \<in> set (log w')
           \<and> (strip original \<noteq> [] \<longrightarrow>
                (\<forall>rows nf. rows_loop env (row # rows) bundle_folder disabled_folder nf w
                     = rows_loop env rows bundle_folder disabled_folder (nf @ [strip original]) w')
              \<and> (\<forall>records w0 pre post nf roles w1 t.
                   reader_rows records = pre @ row # post
                   \<longrightarrow> rows_loop env pre bundle_folder disabled_folder []
                         (logging INFO (CsvHeaders (fieldnames records)) w0) = (Finished nf, w)
                   \<longrightarrow> rows_loop env post bundle_folder disabled_folder (nf @ [strip original]) w'
                         = (Finished roles, w1)
                   \<longrightarrow> open_write env (tree w1) (bundle_folder @ [''not_found_roles.txt''])
                         (concat (map (\<lambda>role. role @ [CHR 0x0A]) roles)) = Inr t
                   \<longrightarrow> strip original \<in> set roles
                       \<and> file_text (tree (process_files env (Some records) bundle_folder
                                            disabled_folder w0))
                             (bundle_folder @ [''not_found_roles.txt''])
                           = Some (concat (map (\<lambda>role. role @ [CHR 0x0A]) roles))))"
proof -
  let ?new = "butlast old_file_path @ [new_file_name]"
  let ?w' = "logging ERROR (UnexpectedErrorProcessing old_file_name e)
               (logging INFO (NewFileCreated ?new)
                  ((logging INFO (FoundFileAt old_file_path)
                      (logging INFO (SearchingForFile old_file_name) w))\<lparr>tree := t1\<rparr>))"
  have r: "process_role env row bundle_folder disabled_folder w = Inr (Some (strip original), ?w')"
    using assms by (rule process_role_archive_write_fails)
  have t: "tree ?w' = t1" by simp
  have n: "file_text (tree ?w') ?new = Some content_new"
    by (simp add: put_file_text [OF open_write_put [OF assms(8)]])
  have l: "(ERROR, UnexpectedErrorProcessing old_file_name e) \<in> set (log ?w')" by simp
  have c: "row ''Original Role Name'' \<noteq> None" "row ''New Role Name'' \<noteq> None"
    using assms(1,2) by simp_all
  have b: "strip original \<noteq> [] \<longrightarrow>
                (\<forall>rows nf. rows_loop env (row # rows) bundle_folder disabled_folder nf w
                     = rows_loop env rows bundle_folder disabled_folder (nf @ [strip original]) ?w')
              \<and> (\<forall>records w0 pre post nf roles w1 t.
                   reader_rows records = pre @ row # post
                   \<longrightarrow> rows_loop env pre bundle_folder disabled_folder []
                         (logging INFO (CsvHeaders (fieldnames records)) w0) = (Finished nf, w)
                   \<longrightarrow> rows_loop env post bundle_folder disabled_folder (nf @ [strip original]) ?w'
                         = (Finished roles, w1)
                   \<longrightarrow> open_write env (tree w1) (bundle_folder @ [''not_found_roles.txt''])
                         (concat (map (\<lambda>role. role @ [CHR 0x0A]) roles)) = Inr t
                   \<longrightarrow> strip original \<in> set roles
                       \<and> file_text (tree (process_files env (Some records) bundle_folder
                                            disabled_folder w0))
                             (bundle_folder @ [''not_found_roles.txt''])
                           = Some (concat (map (\<lambda>role. role @ [CHR 0x0A]) roles)))"
    using error_row_recorded [OF c r] by (rule impI)
  from r t n l b show ?thesis by (intro exI [of _ ?w'] conjI)
qed

lemma disabled_copy_failure_example:
  "process_files archive_locked (Some admin_mapping) [''bundle''] [''bundle'', ''00_Disabled'']
     \<lparr>tree = fixture_tree, log = []\<rparr>
   = \<lparr>tree = Dir [(''bundle'',
              Dir [(''00_Disabled'', Dir []),
                   (''roles'', Dir [(''NAB_Bundle_Admin.xml'', File admin_text),
                                    (''NAB_Bundle_SuperAdmin.xml'', File renamed_text)]),
                   (''not_found_roles.txt'', File (''Admin'' @ [CHR 0x0A]))])],
      log = [(INFO, CsvHeaders (Some [''Original Role Name'', ''New Role Name''])),
             (INFO, SearchingForFile ''NAB_Bundle_Admin.xml''),
             (INFO, FoundFileAt [''bundle'', ''roles'', ''NAB_Bundle_Admin.xml'']),
             (INFO, NewFileCreated [''bundle'', ''roles'', ''NAB_Bundle_SuperAdmin.xml'']),
             (ERROR, UnexpectedErrorProcessing ''NAB_Bundle_Admin.xml'' OSError),
             (INFO, RolesNotFoundFileCreated [''bundle'', ''not_found_roles.txt'']),
             (INFO, ProcessCompleted)]\<rparr>"
  by code_simp

text \<open>
  Claim C7 fails on the code. The original name of the row is a space, empty after
  \<open>strip\<close>; its file \<open>NAB_Bundle_.xml\<close> is found and the renamed file is written, and
  the write of the disabled copy fails. \<open>process_role\<close> returns the empty name, which
  \<open>if not_found_role:\<close> takes for \<open>None\<close>: the name is not recorded, no report is
  written, and the run logs that it completed. The renamed file stays in place.
\<close>

theorem disabled_copy_failure_empty_name_not_reported:
  \<open>process_files archive_locked
     (Some [[''Original Role Name'', ''New Role Name''], ['' '', ''X'']])
     [''bundle''] [''bundle'', ''00_Disabled''] \<lparr>tree = blank_tree, log = []\<rparr>
   = \<lparr>tree = Dir [(''bundle'',
              Dir [(''00_Disabled'', Dir []),
                   (''roles'', Dir [(''NAB_Bundle_.xml'', File admin_text),
                                    (''NAB_Bundle_X.xml'', File ''<Bundle displayName="X" name="X">'')])])],
      log = [(INFO, CsvHeaders (Some [''Original Role Name'', ''New Role Name''])),
             (INFO, SearchingForFile ''NAB_Bundle_.xml''),
             (INFO, FoundFileAt [''bundle'', ''roles'', ''NAB_Bundle_.xml'']),
             (INFO, NewFileCreated [''bundle'', ''roles'', ''NAB_Bundle_X.xml'']),
             (ERROR, UnexpectedErrorProcessing ''NAB_Bundle_.xml'' OSError),
             (INFO, ProcessCompleted)]\<rparr>
   \<and> process_role archive_locked
        (dict_row [''Original Role Name'', ''New Role Name''] ['' '', ''X''])
        [''bundle''] [''bundle'', ''00_Disabled'']
        \<lparr>tree = blank_tree, log = []\<rparr>
      = Inr (Some '''',
          \<lparr>tree = Dir [(''bundle'',
              Dir [(''00_Disabled'', Dir []),
                   (''roles'', Dir [(''NAB_Bundle_.xml'', File admin_text),
                                    (''NAB_Bundle_X.xml'', File ''<Bundle displayName="X" name="X">'')])])],
           log = [(INFO, SearchingForFile ''NAB_Bundle_.xml''),
                  (INFO, FoundFileAt [''bundle'', ''roles'', ''NAB_Bundle_.xml'']),
                  (INFO, NewFileCreated [''bundle'', ''roles'', ''NAB_Bundle_X.xml'']),
                  (ERROR, UnexpectedErrorProcessing ''NAB_Bundle_.xml'' OSError)]\<rparr>)
   \<and> \<not> exists (Dir [(''bundle'',
              Dir [(''00_Disabled'', Dir []),
                   (''roles'', Dir [(''NAB_Bundle_.xml'', File admin_text),
                                    (''NAB_Bundle_X.xml'', File ''<Bundle displayName="X" name="X">'')])])])
         [''bundle'', ''not_found_roles.txt'']
   \<and> open_write archive_locked
        (Dir [(''bundle'',
              Dir [(''00_Disabled'', Dir []),
                   (''roles'', Dir [(''NAB_Bundle_.xml'', File admin_text),
                                    (''NAB_Bundle_X.xml'', File ''<Bundle displayName="X" name="X">'')])])])
        [''bundle'', ''00_Disabled'', ''NAB_Bundle_.xml'']
        ''<Bundle disabled="true" displayName="Admin" name="Admin">''
      = Inl OSError\<close>
  by code_simp

text \<open>
  Claim C8, as the code has it. The removal of the original is inside the \<open>try\<close>: when
  it fails, \<open>process_role\<close> returns the original role name (the row is an error, not a
  success), the error is logged, and the renamed file and the disabled copy stay in place.
  When the name is not empty, the loop over the rows appends it to the unresolved list and
  goes on with the next row; and wherever the row stands in the mapping file, when the
  rows after it run to the end and the report is written, the report lists the name.
\<close>

theorem removal_failure_is_error:
  assumes "row ''Original Role Name'' = Some (Some original)"
    and "row ''New Role Name'' = Some (Some new)"
    and "format_file_name (strip original) = Inr old_file_name"
    and "format_file_name (strip new) = Inr new_file_name"
    and "find_file_recursive (tree w) bundle_folder old_file_name = Some old_file_path"
    and "open_read env (tree w) old_file_path = Inr content"
    and "rewrite_identity content (escape_special_characters (strip new)) = Inr content_new"
    and "open_write env (tree w) (butlast old_file_path @ [new_file_name]) content_new = Inr t1"
    and "mark_disabled content = Inr content_disabled"
    and "open_write env t1 (disabled_folder @ [old_file_name]) content_disabled = Inr t2"
    and "os_remove env t2 old_file_path = Inl e"
  shows "\<exists>w'. process_role env row bundle_folder disabled_folder w = Inr (Some (strip original), w')
           \<and> tree w' = t2
           \<and> file_text (tree w') (disabled_folder @ [old_file_name]) = Some content_disabled
           \<and> file_text (tree w') (butlast old_file_path @ [new_file_name])
               = Some (if butlast old_file_path @ [new_file_name] = disabled_folder @ [old_file_name]
                       then content_disabled else content_new)
           \<and> (ERROR, UnexpectedErrorProcessing old_file_name e) \<in> set (log w')
           \<and> (strip original \<noteq> [] \<longrightarrow>
                (\<forall>rows nf. rows_loop env (row # rows) bundle_folder disabled_folder nf w
                     = rows_loop env rows bundle_folder disabled_folder (nf @ [strip original]) w')
              \<and> (\<forall>records w0 pre post nf roles w1 t.
                   reader_rows records = pre @ row # post
                   \<longrightarrow> rows_loop env pre bundle_folder disabled_folder []
                         (logging INFO (CsvHeaders (fieldnames records)) w0) = (Finished nf, w)
                   \<longrightarrow> rows_loop env post bundle_folder disabled_folder (nf @ [strip original]) w'
                         = (Finished roles, w1)
                   \<longrightarrow> open_write env (tree w1) (bundle_folder @ [''not_found_roles.txt''])
                         (concat (map (\<lambda>role. role @ [CHR 0x0A]) roles)) = Inr t
                   \<longrightarrow> strip original \<in> set roles
                       \<and> file_text (tree (process_files env (Some records) bundle_folder
                                            disabled_folder w0))
                             (bundle_folder @ [''not_found_roles.txt''])
                           = Some (concat (map (\<lambda>role. role @ [CHR 0x0A]) roles))))"
proof -
  let ?new = "butlast old_file_path @ [new_file_name]"
  let ?w' = "logging ERROR (UnexpectedErrorProcessing old_file_name e)
               (logging INFO (DisabledAndMoved (disabled_folder @ [old_file_name]))
                  (logging INFO (NewFileCreated ?new)
                     ((logging INFO (FoundFileAt old_file_path)
                         (logging INFO (SearchingForFile old_file_name) w))\<lparr>tree := t2\<rparr>)))"
  have r: "process_role env row bundle_folder disabled_folder w = Inr (Some (strip original), ?w')"
    using assms by (rule process_role_removal_fails)
  have t: "tree ?w' = t2" by simp
  have "file_text t1 ?new = Some content_new"
    by (simp add: put_file_text [OF open_write_put [OF assms(8)]])
  then have n: "file_text (tree ?w') ?new
               = Some (if ?new = disabled_folder @ [old_file_name] then content_disabled else content_new)"
    by (simp add: put_file_text [OF open_write_put [OF assms(10)]])
  have d: "file_text (tree ?w') (disabled_folder @ [old_file_name]) = Some content_disabled"
    by (simp add: put_file_text [OF open_write_put [OF assms(10)]])
  have l: "(ERROR, UnexpectedErrorProcessing old_file_name e) \<in> set (log ?w')" by simp
  have c: "row ''Original Role Name'' \<noteq> None" "row ''New Role Name'' \<noteq> None"
    using assms(1,2) by simp_all
  have b: "strip original \<noteq> [] \<longrightarrow>
                (\<forall>rows nf. rows_loop env (row # rows) bundle_folder disabled_folder nf w
                     = rows_loop env rows bundle_folder disabled_folder (nf @ [strip original]) ?w')
              \<and> (\<forall>records w0 pre post nf roles w1 t.
                   reader_rows records = pre @ row # post
                   \<longrightarrow> rows_loop env pre bundle_folder disabled_folder []
                         (logging INFO (CsvHeaders (fieldnames records)) w0) = (Finished nf, w)
                   \<longrightarrow> rows_loop env post bundle_folder disabled_folder (nf @ [strip original]) ?w'
                         = (Finished roles, w1)
                   \<longrightarrow> open_write env (tree w1) (bundle_folder @ [''not_found_roles.txt''])
                         (concat (map (\<lambda>role. role @ [CHR 0x0A]) roles)) = Inr t
                   \<longrightarrow> strip original \<in> set roles
                       \<and> file_text (tree (process_files env (Some records) bundle_folder
                                            disabled_folder w0))
                             (bundle_folder @ [''not_found_roles.txt''])
                           = Some (concat (map (\<lambda>role. role @ [CHR 0x0A]) roles)))"
    using error_row_recorded [OF c r] by (rule impI)
  from r t d n l b show ?thesis by (intro exI [of _ ?w'] conjI)
qed

theorem removal_failure_is_error_witness:
  "\<exists>w'. process_role original_locked admin_row [''bundle''] [''bundle'', ''00_Disabled'']
            (logging INFO (CsvHeaders (fieldnames admin_mapping)) \<lparr>tree = fixture_tree, log = []\<rparr>)
          = Inr (Some ''Admin'', w')
         \<and> tree w' = fixture_written
         \<and> (ERROR, UnexpectedErrorProcessing ''NAB_Bundle_Admin.xml'' OSError) \<in> set (log w')
         \<and> file_text (tree (process_files original_locked (Some admin_mapping) [''bundle'']
                              [''bundle'', ''00_Disabled''] \<lparr>tree = fixture_tree, log = []\<rparr>))
               [''bundle'', ''not_found_roles.txt'']
             = Some (''Admin'' @ [CHR 0x0A])"
proof -
  let ?w0 = "\<lparr>tree = fixture_tree, log = []\<rparr>"
  let ?w = "logging INFO (CsvHeaders (fieldnames admin_mapping)) ?w0"
  let ?t1 = "Dir [(''bundle'',
           Dir [(''00_Disabled'', Dir []),
                (''roles'', Dir [(''NAB_Bundle_Admin.xml'', File admin_text),
                   (''NAB_Bundle_SuperAdmin.xml'', File renamed_text)])])]"
  have found: "find_file_recursive (tree ?w) [''bundle'']
                 ''NAB_Bundle_Admin.xml'' = Some [''bundle'', ''roles'', ''NAB_Bundle_Admin.xml'']"
    by (simp add: admin_found)
  have rd: "open_read original_locked (tree ?w)
              [''bundle'', ''roles'', ''NAB_Bundle_Admin.xml''] = Inr admin_text"
    by (simp add: open_read_def original_locked_def fixture_tree_def file_text_def admin_text_lines)
  have rw: "rewrite_identity admin_text (escape_special_characters (strip ''SuperAdmin''))
              = Inr renamed_text"
    by (simp add: admin_rewritten renamed_text_def)
  have md: "mark_disabled admin_text = Inr disabled_text"
    by (simp add: admin_disabled disabled_text_def)
  have w1: "open_write original_locked (tree ?w)
              (butlast [''bundle'', ''roles'', ''NAB_Bundle_Admin.xml''] @ [''NAB_Bundle_SuperAdmin.xml''])
              renamed_text = Inr ?t1"
    by (simp add: open_write_def original_locked_def fixture_tree_def)
  have w2: "open_write original_locked ?t1 ([''bundle'', ''00_Disabled''] @ [''NAB_Bundle_Admin.xml''])
              disabled_text = Inr fixture_written"
    by (simp add: open_write_def original_locked_def fixture_written_def)
  have rm: "os_remove original_locked fixture_written [''bundle'', ''roles'', ''NAB_Bundle_Admin.xml'']
              = Inl OSError"
    by (simp add: os_remove_def original_locked_def)
  have s: "strip ''Admin'' = ''Admin''" by (simp add: strip_def isspace_def)
  from removal_failure_is_error [OF admin_row_cells admin_names found rd rw w1 md w2 rm]
  obtain w' where a: "process_role original_locked admin_row [''bundle''] [''bundle'', ''00_Disabled''] ?w
                        = Inr (Some (strip ''Admin''), w')"
    and b: "tree w' = fixture_written"
    and c: "(ERROR, UnexpectedErrorProcessing ''NAB_Bundle_Admin.xml'' OSError) \<in> set (log w')"
    and d: "strip ''Admin'' \<noteq> [] \<longrightarrow>
              (\<forall>records w0 pre post nf roles w1 t.
                   reader_rows records = pre @ admin_row # post
                   \<longrightarrow> rows_loop original_locked pre [''bundle''] [''bundle'', ''00_Disabled''] []
                         (logging INFO (CsvHeaders (fieldnames records)) w0) = (Finished nf, ?w)
                   \<longrightarrow> rows_loop original_locked post [''bundle''] [''bundle'', ''00_Disabled'']
                         (nf @ [strip ''Admin'']) w' = (Finished roles, w1)
                   \<longrightarrow> open_write original_locked (tree w1) ([''bundle''] @ [''not_found_roles.txt''])
                         (concat (map (\<lambda>role. role @ [CHR 0x0A]) roles)) = Inr t
                   \<longrightarrow> strip ''Admin'' \<in> set roles
                       \<and> file_text (tree (process_files original_locked (Some records) [''bundle'']
                                            [''bundle'', ''00_Disabled''] w0))
                             ([''bundle''] @ [''not_found_roles.txt''])
                           = Some (concat (map (\<lambda>role. role @ [CHR 0x0A]) roles)))"
    by blast
  have p1: "reader_rows admin_mapping = [] @ admin_row # []"
    by (simp add: reader_rows_def admin_mapping_def admin_row_def)
  have p2: "rows_loop original_locked [] [''bundle''] [''bundle'', ''00_Disabled''] [] ?w
              = (Finished [], ?w)"
    by simp
  have p3: "rows_loop original_locked [] [''bundle''] [''bundle'', ''00_Disabled'']
              ([] @ [strip ''Admin'']) w' = (Finished [''Admin''], w')"
    by (simp add: s)
  have p4: "open_write original_locked (tree w') ([''bundle''] @ [''not_found_roles.txt''])
              (concat (map (\<lambda>role. role @ [CHR 0x0A]) [''Admin'']))
            = Inr (Dir [(''bundle'',
                    Dir [(''00_Disabled'', Dir [(''NAB_Bundle_Admin.xml'', File disabled_text)]),
                         (''roles'', Dir [(''NAB_Bundle_Admin.xml'', File admin_text),
                                          (''NAB_Bundle_SuperAdmin.xml'', File renamed_text)]),
                         (''not_found_roles.txt'', File (''Admin'' @ [CHR 0x0A]))])])"
    by (simp add: b open_write_def original_locked_def fixture_written_def)
  from d s have "\<forall>records w0 pre post nf roles w1 t.
                   reader_rows records = pre @ admin_row # post
                   \<longrightarrow> rows_loop original_locked pre [''bundle''] [''bundle'', ''00_Disabled''] []
                         (logging INFO (CsvHeaders (fieldnames records)) w0) = (Finished nf, ?w)
                   \<longrightarrow> rows_loop original_locked post [''bundle''] [''bundle'', ''00_Disabled'']
                         (nf @ [strip ''Admin'']) w' = (Finished roles, w1)
                   \<longrightarrow> open_write original_locked (tree w1) ([''bundle''] @ [''not_found_roles.txt''])
                         (concat (map (\<lambda>role. role @ [CHR 0x0A]) roles)) = Inr t
                   \<longrightarrow> strip ''Admin'' \<in> set roles
                       \<and> file_text (tree (process_files original_locked (Some records) [''bundle'']
                                            [''bundle'', ''00_Disabled''] w0))
                             ([''bundle''] @ [''not_found_roles.txt''])
                           = Some (concat (map (\<lambda>role. role @ [CHR 0x0A]) roles))"
    by simp
  from this [rule_format, OF p1 p2 p3 p4]
  have f: "file_text (tree (process_files original_locked (Some admin_mapping) [''bundle'']
                              [''bundle'', ''00_Disabled''] \<lparr>tree = fixture_tree, log = []\<rparr>))
               [''bundle'', ''not_found_roles.txt'']
             = Some (''Admin'' @ [CHR 0x0A])"
    by simp
  from a b c f s show ?thesis by auto
qed

text \<open>
  The claim as stated fails: with the original locked against removal the row that has
  written both files returns the role name \<open>Admin\<close>, not \<open>None\<close>, and the run writes
  the name into the report.
\<close>

theorem removal_failure_counterexample:
  "process_role original_locked admin_row [''bundle''] [''bundle'', ''00_Disabled'']
     \<lparr>tree = fixture_tree, log = []\<rparr>
   = Inr (Some ''Admin'',
          \<lparr>tree = fixture_written,
           log = [(INFO, SearchingForFile ''NAB_Bundle_Admin.xml''),
                  (INFO, FoundFileAt [''bundle'', ''roles'', ''NAB_Bundle_Admin.xml'']),
                  (INFO, NewFileCreated [''bundle'', ''roles'', ''NAB_Bundle_SuperAdmin.xml'']),
                  (INFO, DisabledAndMoved [''bundle'', ''00_Disabled'', ''NAB_Bundle_Admin.xml'']),
                  (ERROR, UnexpectedErrorProcessing ''NAB_Bundle_Admin.xml'' OSError)]\<rparr>)
   \<and> os_remove original_locked fixture_written [''bundle'', ''roles'', ''NAB_Bundle_Admin.xml'']
       = Inl OSError
   \<and> file_text (tree (process_files original_locked (Some admin_mapping) [''bundle'']
                        [''bundle'', ''00_Disabled''] \<lparr>tree = fixture_tree, log = []\<rparr>))
         [''bundle'', ''not_found_roles.txt'']
       = Some (''Admin'' @ [CHR 0x0A])"
  by code_simp

end
